theory Spec2Isabelle
  imports Main
begin

section \<open>Text helpers\<close>

text \<open>
  Python text is modelled as \<open>string\<close>, one \<open>char\<close> per character. The helpers below
  are exact on ASCII text: case folding covers the letters A to Z and whitespace is the
  ASCII whitespace of \<open>str.isspace\<close> (code points 9 to 13, 28 to 31 and 32).
\<close>

definition lower_char :: "char \<Rightarrow> char" where
  "lower_char c =
     (case map_of (zip ''ABCDEFGHIJKLMNOPQRSTUVWXYZ'' ''abcdefghijklmnopqrstuvwxyz'') c of
        Some d \<Rightarrow> d
      | None \<Rightarrow> c)"

definition lower :: "string \<Rightarrow> string" where
  "lower s = map lower_char s"

definition is_space :: "char \<Rightarrow> bool" where
  "is_space c = (let n = (of_char c :: nat) in (9 \<le> n \<and> n \<le> 13) \<or> (28 \<le> n \<and> n \<le> 32))"

definition lstrip :: "string \<Rightarrow> string" where
  "lstrip s = dropWhile is_space s"

definition rstrip :: "string \<Rightarrow> string" where
  "rstrip s = rev (dropWhile is_space (rev s))"

definition strip :: "string \<Rightarrow> string" where
  "strip s = rstrip (lstrip s)"

text \<open>\<open>s.rstrip("\n")\<close>: every trailing line feed is removed, nothing else.\<close>

definition rstrip_nl :: "string \<Rightarrow> string" where
  "rstrip_nl s = rev (dropWhile (\<lambda>c. c = CHR 0x0A) (rev s))"

text \<open>\<open>s.ljust(w)\<close>: pad with spaces on the right up to \<open>w\<close> characters; never truncates.\<close>

definition ljust :: "string \<Rightarrow> int \<Rightarrow> string" where
  "ljust s w = s @ replicate (nat (w - int (length s))) CHR '' ''"

text \<open>
  \<open>xs[a:b]\<close> with Python's treatment of negative and out-of-range bounds: a negative
  bound counts from the end, and both bounds are clamped to the sequence.
\<close>

definition pyslice :: "'a list \<Rightarrow> int \<Rightarrow> int \<Rightarrow> 'a list" where
  "pyslice xs a b =
     (let n = int (length xs);
          lo = (if a < 0 then max 0 (n + a) else min n a);
          hi = (if b < 0 then max 0 (n + b) else min n b)
      in take (nat (hi - lo)) (drop (nat lo) xs))"

text \<open>\<open>s.rfind(c)\<close>: the index of the last occurrence of \<open>c\<close>, or \<open>-1\<close>.\<close>

fun rfind :: "char \<Rightarrow> string \<Rightarrow> int" where
  "rfind c [] = - 1"
| "rfind c (x # xs) =
     (let r = rfind c xs in if 0 \<le> r then r + 1 else if x = c then 0 else - 1)"

section \<open>Format resolver\<close>

text \<open>
  \<open>os.path.splitext\<close> (the POSIX variant: separator \<open>/\<close>, no alternative separator).
  The loop skips the leading dots of the last path component; the extension starts at
  the last dot provided some character other than a dot precedes it in that component.
\<close>

function splitext_loop :: "string \<Rightarrow> int \<Rightarrow> int \<Rightarrow> string \<times> string" where
  "splitext_loop p filenameIndex dotIndex =
     (if filenameIndex < dotIndex then
        (if pyslice p filenameIndex (filenameIndex + 1) \<noteq> ''.''
         then (pyslice p 0 dotIndex, pyslice p dotIndex (int (length p)))
         else splitext_loop p (filenameIndex + 1) dotIndex)
      else (p, []))"
  by pat_completeness auto
termination
  by (relation "measure (\<lambda>(p, i, d). nat (d - i))") auto

declare splitext_loop.simps [simp del]

definition splitext :: "string \<Rightarrow> string \<times> string" where
  "splitext p =
     (let sepIndex = rfind CHR ''/'' p;
          dotIndex = rfind CHR ''.'' p
      in if dotIndex > sepIndex then splitext_loop p (sepIndex + 1) dotIndex
         else (p, []))"

definition guess_format :: "string \<Rightarrow> string" where
  "guess_format path =
     (let ext = lower (snd (splitext path)) in
      if ext \<in> set [''.csv''] then ''csv''
      else if ext \<in> set [''.tsv'', ''.tab''] then ''tsv''
      else if ext \<in> set [''.json''] then ''json''
      else if ext \<in> set [''.ndjson'', ''.jsonl''] then ''ndjson''
      else if ext \<in> set [''.xml''] then ''xml''
      else if ext \<in> set [''.ini'', ''.cfg''] then ''ini''
      else if ext \<in> set [''.txt'', ''.log''] then ''text''
      else ''unknown'')"


section \<open>Values, records and exceptions\<close>

text \<open>
  A dict is an association list in insertion order with pairwise distinct keys; storing
  under a key that is present replaces the value and keeps the key's position.
  Dict keys are strings or Python's \<open>None\<close> (the default \<open>restkey\<close> of
  \<open>csv.DictReader\<close>). A float is kept as the literal it was read from.
\<close>

datatype pykey = KNone | KStr string

datatype pyval =
    VNone
  | VBool bool
  | VInt int
  | VFloat string
  | VStr string
  | VList "pyval list"
  | VDict "(pykey \<times> pyval) list"

type_synonym pydict = "(pykey \<times> pyval) list"

fun dict_set :: "'k \<Rightarrow> 'v \<Rightarrow> ('k \<times> 'v) list \<Rightarrow> ('k \<times> 'v) list" where
  "dict_set k v [] = [(k, v)]"
| "dict_set k v ((k', v') # d) =
     (if k = k' then (k, v) # d else (k', v') # dict_set k v d)"

definition dict_keys :: "('k \<times> 'v) list \<Rightarrow> 'k set" where
  "dict_keys d = fst ` set d"

datatype exn =
    ValueError string
  | TypeError string
  | OSError string
  | LookupError string
  | UnicodeDecodeError
  | JSONDecodeError
  | ParseError
  | CsvError string
  | ConfigParserError

section \<open>Text streams and the file system\<close>

text \<open>
  An open text stream is the list of lines its iteration still yields, a closed flag and
  its \<open>name\<close> attribute (absent on \<open>io.StringIO\<close>, the path on a file opened by
  path, the descriptor number on a file opened from a descriptor). Reading a closed
  stream raises \<open>ValueError\<close>.
\<close>

datatype name_attr = NoName | StrName string | IntName int

record stream =
  s_name :: name_attr
  s_lines :: "string list"
  s_closed :: bool

definition closed_error :: exn where
  "closed_error = ValueError ''I/O operation on closed file.''"

definition close :: "stream \<Rightarrow> stream" where
  "close f = f\<lparr>s_closed := True\<rparr>"

text \<open>\<open>next(f)\<close> on the stream: \<open>None\<close> is the end of the input.\<close>

definition next_line :: "stream \<Rightarrow> exn + (string option \<times> stream)" where
  "next_line f =
     (if s_closed f then Inl closed_error
      else case s_lines f of
             [] \<Rightarrow> Inr (None, f)
           | l # ls \<Rightarrow> Inr (Some l, f\<lparr>s_lines := ls\<rparr>))"

text \<open>\<open>f.read()\<close>: the rest of the text, leaving the stream at its end.\<close>

definition read_all :: "stream \<Rightarrow> exn + (string \<times> stream)" where
  "read_all f =
     (if s_closed f then Inl closed_error
      else Inr (concat (s_lines f), f\<lparr>s_lines := []\<rparr>))"

text \<open>
  The file system is what \<open>open(path, "r", encoding=enc)\<close> gives: an exception, or the
  lines of the file as decoded with that encoding.
\<close>

type_synonym filesystem = "string \<Rightarrow> string \<Rightarrow> exn + string list"

definition py_open :: "filesystem \<Rightarrow> string \<Rightarrow> string \<Rightarrow> exn + stream" where
  "py_open fs path enc =
     (case fs path enc of
        Inl e \<Rightarrow> Inl e
      | Inr ls \<Rightarrow> Inr \<lparr>s_name = StrName path, s_lines = ls, s_closed = False\<rparr>)"

definition open_file :: "filesystem \<Rightarrow> string \<Rightarrow> string option \<Rightarrow> exn + stream" where
  "open_file fs path encoding =
     (if encoding \<noteq> None \<and> encoding \<noteq> Some [] then py_open fs path (the encoding)
      else case py_open fs path ''utf-8'' of
             Inl UnicodeDecodeError \<Rightarrow> py_open fs path ''latin-1''
           | r \<Rightarrow> r)"

section \<open>The csv module: reader and DictReader\<close>

text \<open>
  \<open>csv.reader\<close> with the \<open>excel\<close> dialect and a caller-chosen delimiter: quote
  character \<open>"\<close>, doubled quotes inside quoted fields, no escape character, no skipping
  of initial spaces, not strict. The states are those of the module's scanner; the three
  escape states cannot be reached without an escape character and are left out.
  \<open>None\<close> as the character is the end of a line.
\<close>

datatype rstate =
    START_RECORD | START_FIELD | IN_FIELD | IN_QUOTED_FIELD | QUOTE_IN_QUOTED_FIELD | EAT_CRNL

record reader =
  r_state :: rstate
  r_fields :: "string list"
  r_field :: string

definition field_limit :: nat where
  "field_limit = 131072"

definition quotechar :: char where
  "quotechar = CHR 0x22"

definition is_crnl :: "char option \<Rightarrow> bool" where
  "is_crnl c = (c = Some CHR 0x0A \<or> c = Some CHR 0x0D)"

definition parse_add_char :: "char \<Rightarrow> reader \<Rightarrow> exn + reader" where
  "parse_add_char c r =
     (if length (r_field r) \<ge> field_limit
      then Inl (CsvError ''field larger than field limit (131072)'')
      else Inr (r\<lparr>r_field := r_field r @ [c]\<rparr>))"

definition parse_save_field :: "reader \<Rightarrow> reader" where
  "parse_save_field r = r\<lparr>r_fields := r_fields r @ [r_field r], r_field := []\<rparr>"

definition set_state :: "rstate \<Rightarrow> exn + reader \<Rightarrow> exn + reader" where
  "set_state st x = (case x of Inl e \<Rightarrow> Inl e | Inr r \<Rightarrow> Inr (r\<lparr>r_state := st\<rparr>))"

definition start_field :: "char \<Rightarrow> char option \<Rightarrow> reader \<Rightarrow> exn + reader" where
  "start_field delim c r =
     (if is_crnl c \<or> c = None then
        Inr ((parse_save_field r)\<lparr>r_state := (if c = None then START_RECORD else EAT_CRNL)\<rparr>)
      else if c = Some quotechar then Inr (r\<lparr>r_state := IN_QUOTED_FIELD\<rparr>)
      else if c = Some delim then Inr ((parse_save_field r)\<lparr>r_state := START_FIELD\<rparr>)
      else set_state IN_FIELD (parse_add_char (the c) r))"

definition parse_process_char :: "char \<Rightarrow> char option \<Rightarrow> reader \<Rightarrow> exn + reader" where
  "parse_process_char delim c r =
     (case r_state r of
        START_RECORD \<Rightarrow>
          (if c = None then Inr r
           else if is_crnl c then Inr (r\<lparr>r_state := EAT_CRNL\<rparr>)
           else start_field delim c r)
      | START_FIELD \<Rightarrow> start_field delim c r
      | IN_FIELD \<Rightarrow>
          (if is_crnl c \<or> c = None then
             Inr ((parse_save_field r)\<lparr>r_state := (if c = None then START_RECORD else EAT_CRNL)\<rparr>)
           else if c = Some delim then Inr ((parse_save_field r)\<lparr>r_state := START_FIELD\<rparr>)
           else parse_add_char (the c) r)
      | IN_QUOTED_FIELD \<Rightarrow>
          (if c = None then Inr r
           else if c = Some quotechar then Inr (r\<lparr>r_state := QUOTE_IN_QUOTED_FIELD\<rparr>)
           else parse_add_char (the c) r)
      | QUOTE_IN_QUOTED_FIELD \<Rightarrow>
          (if c = Some quotechar then set_state IN_QUOTED_FIELD (parse_add_char quotechar r)
           else if c = Some delim then Inr ((parse_save_field r)\<lparr>r_state := START_FIELD\<rparr>)
           else if is_crnl c \<or> c = None then
             Inr ((parse_save_field r)\<lparr>r_state := (if c = None then START_RECORD else EAT_CRNL)\<rparr>)
           else set_state IN_FIELD (parse_add_char (the c) r))
      | EAT_CRNL \<Rightarrow>
          (if is_crnl c then Inr r
           else if c = None then Inr (r\<lparr>r_state := START_RECORD\<rparr>)
           else Inl (CsvError ''new-line character seen in unquoted field'')))"

fun process_chars :: "char \<Rightarrow> string \<Rightarrow> reader \<Rightarrow> exn + reader" where
  "process_chars delim [] r = Inr r"
| "process_chars delim (c # cs) r =
     (case parse_process_char delim (Some c) r of
        Inl e \<Rightarrow> Inl e
      | Inr r' \<Rightarrow> process_chars delim cs r')"

definition process_line :: "char \<Rightarrow> string \<Rightarrow> reader \<Rightarrow> exn + reader" where
  "process_line delim line r =
     (case process_chars delim line r of
        Inl e \<Rightarrow> Inl e
      | Inr r' \<Rightarrow> parse_process_char delim None r')"

definition parse_reset :: reader where
  "parse_reset = \<lparr>r_state = START_RECORD, r_fields = [], r_field = []\<rparr>"

text \<open>
  One call of the reader's \<open>__next__\<close> on the lines still unread: lines are consumed until
  the scanner is back at the start of a record. \<open>Inr None\<close> is \<open>StopIteration\<close>. At the
  end of the input a pending field (the input ended inside a quoted field) is saved and
  the row returned.
\<close>

fun reader_iternext ::
  "char \<Rightarrow> reader \<Rightarrow> string list \<Rightarrow> (exn + string list option) \<times> string list" where
  "reader_iternext delim r [] =
     (if r_field r \<noteq> [] \<or> r_state r = IN_QUOTED_FIELD
      then (Inr (Some (r_fields (parse_save_field r))), [])
      else (Inr None, []))"
| "reader_iternext delim r (line # rest) =
     (case process_line delim line r of
        Inl e \<Rightarrow> (Inl e, rest)
      | Inr r' \<Rightarrow>
          if r_state r' \<noteq> START_RECORD then reader_iternext delim r' rest
          else (Inr (Some (r_fields r')), rest))"

lemma reader_iternext_length:
  "reader_iternext delim r ls = (res, rest) \<Longrightarrow> length rest \<le> length ls"
  by (induction ls arbitrary: r) (auto split: sum.splits if_splits intro: le_SucI)

lemma reader_iternext_consumes:
  "reader_iternext delim r (l # ls) = (res, rest) \<Longrightarrow> length rest < Suc (length ls)"
  using reader_iternext_length[of delim _ ls res rest]
  by (auto split: sum.splits if_splits simp: less_Suc_eq_le)

text \<open>
  The row loop of \<open>DictReader.__next__\<close>: read a row and skip the rows that are \<open>[]\<close>
  (blank lines).
\<close>

function dictreader_row ::
  "char \<Rightarrow> string list \<Rightarrow> (exn + string list option) \<times> string list" where
  "dictreader_row delim ls =
     (case reader_iternext delim parse_reset ls of
        (Inr (Some []), rest) \<Rightarrow> dictreader_row delim rest
      | other \<Rightarrow> other)"
  by pat_completeness auto
termination
proof (relation "measure (\<lambda>(delim, ls). length ls)")
  show "wf (measure (\<lambda>(delim, ls). length ls))" by simp
next
  fix delim :: char and ls x1 rest x2 a
  assume "(x1, rest) = reader_iternext delim parse_reset ls" "x1 = Inr x2" "x2 = Some a" "a = []"
  then have r: "reader_iternext delim parse_reset ls = (Inr (Some []), rest)" by simp
  show "((delim, rest), (delim, ls)) \<in> measure (\<lambda>(delim, ls). length ls)"
  proof (cases ls)
    case Nil
    with r show ?thesis by (simp add: parse_reset_def)
  next
    case (Cons l ls')
    with r reader_iternext_consumes[of delim parse_reset l ls' "Inr (Some [])" rest]
    show ?thesis by simp
  qed
qed

declare dictreader_row.simps [simp del]

text \<open>
  The dict of one row: header names zipped with the row's values; a longer row keeps
  the surplus values as a list under the key \<open>None\<close> (\<open>restkey\<close>), a shorter row maps the
  remaining header names to \<open>None\<close> (\<open>restval\<close>).
\<close>

definition row_dict :: "string list \<Rightarrow> string list \<Rightarrow> pydict" where
  "row_dict fieldnames row =
     (let d = foldl (\<lambda>d (k, v). dict_set (KStr k) (VStr v) d) [] (zip fieldnames row);
          lf = length fieldnames;
          lr = length row
      in if lf < lr then dict_set KNone (VList (map VStr (drop lf row))) d
         else if lf > lr then foldl (\<lambda>d key. dict_set (KStr key) VNone d) d (drop lr fieldnames)
         else d)"

section \<open>Library parsers taken as parameters\<close>

text \<open>
  The decoders hand whole documents to three library parsers: \<open>json.loads\<close>,
  \<open>xml.etree.ElementTree.parse\<close> and \<open>ConfigParser.read_file\<close>. They are parameters
  of the model. An element tree node carries its tag, its attributes, its text (absent
  when the element has none) and its child elements. A parsed configuration is the list
  of its sections in order, each with what \<open>cfg.items(section)\<close> gives: the key/value
  pairs, or the exception raised while interpolating them.
\<close>

datatype element =
  Element (e_tag: string) (e_attrib: "(string \<times> string) list") (e_text: "string option")
    (e_children: "element list")

type_synonym section_items = "string \<times> (exn + (string \<times> string) list)"

record stdlib =
  json_loads :: "string \<Rightarrow> exn + pyval"
  et_parse :: "string \<Rightarrow> exn + element"
  cfg_read_file :: "string list \<Rightarrow> exn + section_items list"

section \<open>Decoders as generators\<close>

text \<open>
  Every decoder of \<open>FileParser\<close> is a generator function: calling it runs none of its
  body and returns a generator object. The generator below is the suspended frame:
  \<open>Created\<close> before the first \<open>next\<close>, then the loop the body is suspended in together
  with the loop's local variables. \<open>LastYield\<close> is a frame suspended at a \<open>yield\<close> that
  no further statement follows; \<open>Finished\<close> is a generator that returned or raised.
\<close>

datatype decoder =
    ParseCsv | ParseTsv | ParseJson | ParseNdjson | ParseXml | ParseIni | ParseText
  | ParseFixedWidth | ParseUnknown

datatype generator =
    Created decoder "string option" "(string \<times> int) list option"
  | CsvRows "string list" char
  | JsonItems "pyval list"
  | NdjsonLines
  | XmlChildren "element list"
  | IniSections "section_items list"
  | TextLines int
  | FixedLines "string list" "int list" int int
  | UnknownLines int
  | LastYield
  | Finished

datatype step = Yield pydict | StopIteration | Raise exn

subsection \<open>\<open>_parse_csv\<close> and \<open>_parse_tsv\<close>\<close>

definition parse_csv_loop :: "string list \<Rightarrow> char \<Rightarrow> stream \<Rightarrow> step \<times> generator \<times> stream" where
  "parse_csv_loop fieldnames delim f =
     (if s_closed f then (Raise closed_error, Finished, f)
      else case dictreader_row delim (s_lines f) of
             (Inl e, rest) \<Rightarrow> (Raise e, Finished, f\<lparr>s_lines := rest\<rparr>)
           | (Inr None, rest) \<Rightarrow> (StopIteration, Finished, f\<lparr>s_lines := rest\<rparr>)
           | (Inr (Some row), rest) \<Rightarrow>
               (Yield (row_dict fieldnames row), CsvRows fieldnames delim, f\<lparr>s_lines := rest\<rparr>))"

text \<open>
  The first \<open>next\<close>: \<open>csv.reader\<close> takes the iterator of the stream, then the dialect
  checks the delimiter; \<open>DictReader.__next__\<close> reads the header row (which may be
  \<open>[]\<close>) and goes on to the first data row.
\<close>

definition parse_csv_start :: "string \<Rightarrow> stream \<Rightarrow> step \<times> generator \<times> stream" where
  "parse_csv_start delim f =
     (if s_closed f then (Raise closed_error, Finished, f)
      else if length delim \<noteq> 1
      then (Raise (TypeError ''delimiter must be a 1-character string''), Finished, f)
      else case reader_iternext (hd delim) parse_reset (s_lines f) of
             (Inl e, rest) \<Rightarrow> (Raise e, Finished, f\<lparr>s_lines := rest\<rparr>)
           | (Inr None, rest) \<Rightarrow> (StopIteration, Finished, f\<lparr>s_lines := rest\<rparr>)
           | (Inr (Some fieldnames), rest) \<Rightarrow>
               parse_csv_loop fieldnames (hd delim) (f\<lparr>s_lines := rest\<rparr>))"

subsection \<open>\<open>_parse_json\<close>\<close>

definition as_record :: "pyval \<Rightarrow> pydict" where
  "as_record item = (case item of VDict d \<Rightarrow> d | _ \<Rightarrow> [(KStr ''value'', item)])"

definition parse_json_loop :: "pyval list \<Rightarrow> stream \<Rightarrow> step \<times> generator \<times> stream" where
  "parse_json_loop items f =
     (case items of
        [] \<Rightarrow> (StopIteration, Finished, f)
      | item # rest \<Rightarrow> (Yield (as_record item), JsonItems rest, f))"

definition parse_json_start :: "stdlib \<Rightarrow> stream \<Rightarrow> step \<times> generator \<times> stream" where
  "parse_json_start lib f =
     (case read_all f of
        Inl e \<Rightarrow> (Raise e, Finished, f)
      | Inr (doc, f') \<Rightarrow>
          (case json_loads lib doc of
             Inl e \<Rightarrow> (Raise e, Finished, f')
           | Inr (VList items) \<Rightarrow> parse_json_loop items f'
           | Inr (VDict d) \<Rightarrow> (Yield d, LastYield, f')
           | Inr data \<Rightarrow> (Yield [(KStr ''value'', data)], LastYield, f')))"

subsection \<open>\<open>_parse_ndjson\<close>\<close>

fun ndjson_scan :: "stdlib \<Rightarrow> string list \<Rightarrow> step \<times> string list" where
  "ndjson_scan lib [] = (StopIteration, [])"
| "ndjson_scan lib (line # rest) =
     (let line' = strip line in
      if line' = [] then ndjson_scan lib rest
      else case json_loads lib line' of
             Inr obj \<Rightarrow> (Yield (as_record obj), rest)
           | Inl JSONDecodeError \<Rightarrow> (Yield [(KStr ''raw'', VStr line')], rest)
           | Inl e \<Rightarrow> (Raise e, rest))"

definition parse_ndjson_loop :: "stdlib \<Rightarrow> stream \<Rightarrow> step \<times> generator \<times> stream" where
  "parse_ndjson_loop lib f =
     (if s_closed f then (Raise closed_error, Finished, f)
      else case ndjson_scan lib (s_lines f) of
             (Yield r, rest) \<Rightarrow> (Yield r, NdjsonLines, f\<lparr>s_lines := rest\<rparr>)
           | (other, rest) \<Rightarrow> (other, Finished, f\<lparr>s_lines := rest\<rparr>))"

subsection \<open>\<open>_parse_xml\<close>\<close>

definition text_value :: "string option \<Rightarrow> pyval" where
  "text_value t = (case t of None \<Rightarrow> VNone | Some s \<Rightarrow> VStr s)"

definition add_sub :: "pydict \<Rightarrow> element \<Rightarrow> pydict" where
  "add_sub rec sub =
     (case map_of rec (KStr (e_tag sub)) of
        Some (VList vs) \<Rightarrow> dict_set (KStr (e_tag sub)) (VList (vs @ [text_value (e_text sub)])) rec
      | Some v \<Rightarrow> dict_set (KStr (e_tag sub)) (VList [v, text_value (e_text sub)]) rec
      | None \<Rightarrow> dict_set (KStr (e_tag sub)) (text_value (e_text sub)) rec)"

definition child_record :: "element \<Rightarrow> pydict" where
  "child_record child =
     (let rec = foldl (\<lambda>r (k, v). dict_set (KStr k) (VStr v) r) [] (e_attrib child);
          rec = foldl add_sub rec (e_children child)
      in if rec = [] \<and> (case e_text child of None \<Rightarrow> False | Some t \<Rightarrow> t \<noteq> [] \<and> strip t \<noteq> [])
         then [(KStr ''text'', VStr (strip (the (e_text child))))]
         else rec)"

definition parse_xml_loop :: "element list \<Rightarrow> stream \<Rightarrow> step \<times> generator \<times> stream" where
  "parse_xml_loop cs f =
     (case cs of
        [] \<Rightarrow> (StopIteration, Finished, f)
      | child # rest \<Rightarrow> (Yield (child_record child), XmlChildren rest, f))"

definition parse_xml_start :: "stdlib \<Rightarrow> stream \<Rightarrow> step \<times> generator \<times> stream" where
  "parse_xml_start lib f =
     (case read_all f of
        Inl e \<Rightarrow> (Raise e, Finished, f)
      | Inr (doc, f') \<Rightarrow>
          (case et_parse lib doc of
             Inl e \<Rightarrow> (Raise e, Finished, f')
           | Inr root \<Rightarrow> parse_xml_loop (e_children root) f'))"

subsection \<open>\<open>_parse_ini\<close>\<close>

definition section_record :: "string \<Rightarrow> (string \<times> string) list \<Rightarrow> pydict" where
  "section_record section items =
     foldl (\<lambda>r (k, v). dict_set (KStr k) (VStr v) r) [(KStr ''__section__'', VStr section)] items"

definition parse_ini_loop :: "section_items list \<Rightarrow> stream \<Rightarrow> step \<times> generator \<times> stream" where
  "parse_ini_loop secs f =
     (case secs of
        [] \<Rightarrow> (StopIteration, Finished, f)
      | (section, Inl e) # rest \<Rightarrow> (Raise e, Finished, f)
      | (section, Inr items) # rest \<Rightarrow> (Yield (section_record section items), IniSections rest, f))"

definition parse_ini_start :: "stdlib \<Rightarrow> stream \<Rightarrow> step \<times> generator \<times> stream" where
  "parse_ini_start lib f =
     (if s_closed f then (Raise closed_error, Finished, f)
      else case cfg_read_file lib (s_lines f) of
             Inl e \<Rightarrow> (Raise e, Finished, f\<lparr>s_lines := []\<rparr>)
           | Inr secs \<Rightarrow> parse_ini_loop secs (f\<lparr>s_lines := []\<rparr>))"

subsection \<open>\<open>_parse_text\<close> and \<open>_parse_unknown\<close>\<close>

definition line_record :: "int \<Rightarrow> string \<Rightarrow> pydict" where
  "line_record i line = [(KStr ''line_no'', VInt i), (KStr ''text'', VStr (rstrip_nl line))]"

definition parse_text_loop :: "int \<Rightarrow> stream \<Rightarrow> step \<times> generator \<times> stream" where
  "parse_text_loop i f =
     (case next_line f of
        Inl e \<Rightarrow> (Raise e, Finished, f)
      | Inr (None, f') \<Rightarrow> (StopIteration, Finished, f')
      | Inr (Some line, f') \<Rightarrow> (Yield (line_record i line), TextLines (i + 1), f'))"

definition parse_unknown_loop :: "int \<Rightarrow> stream \<Rightarrow> step \<times> generator \<times> stream" where
  "parse_unknown_loop i f =
     (case next_line f of
        Inl e \<Rightarrow> (Raise e, Finished, f)
      | Inr (None, f') \<Rightarrow> (StopIteration, Finished, f')
      | Inr (Some line, f') \<Rightarrow> (Yield (line_record i line), UnknownLines (i + 1), f'))"

subsection \<open>\<open>_parse_fixed_width\<close>\<close>

fun slice_fields :: "string \<Rightarrow> int \<Rightarrow> (string \<times> int) list \<Rightarrow> pydict \<Rightarrow> pydict" where
  "slice_fields raw pos [] rec = rec"
| "slice_fields raw pos ((name, width) # rest) rec =
     slice_fields raw (pos + width) rest
       (dict_set (KStr name) (VStr (strip (pyslice raw pos (pos + width)))) rec)"

definition fixed_record :: "string list \<Rightarrow> int list \<Rightarrow> int \<Rightarrow> int \<Rightarrow> string \<Rightarrow> pydict" where
  "fixed_record names widths total_width line_no line =
     (let raw = rstrip_nl line;
          raw = ljust raw total_width;
          rec = slice_fields raw 0 (zip names widths) []
      in dict_set (KStr ''_line_no'') (VInt line_no) rec)"

definition parse_fixed_loop ::
  "string list \<Rightarrow> int list \<Rightarrow> int \<Rightarrow> int \<Rightarrow> stream \<Rightarrow> step \<times> generator \<times> stream" where
  "parse_fixed_loop names widths total_width line_no f =
     (case next_line f of
        Inl e \<Rightarrow> (Raise e, Finished, f)
      | Inr (None, f') \<Rightarrow> (StopIteration, Finished, f')
      | Inr (Some line, f') \<Rightarrow>
          (Yield (fixed_record names widths total_width line_no line),
           FixedLines names widths total_width (line_no + 1), f'))"

definition parse_fixed_start ::
  "(string \<times> int) list option \<Rightarrow> stream \<Rightarrow> step \<times> generator \<times> stream" where
  "parse_fixed_start fixed_schema f =
     (if fixed_schema = None \<or> fixed_schema = Some []
      then (Raise (ValueError ''fixed_schema is required for fixed-width parsing''), Finished, f)
      else let widths = map snd (the fixed_schema);
               names = map fst (the fixed_schema);
               total_width = sum_list widths
           in parse_fixed_loop names widths total_width 1 f)"

subsection \<open>Resuming a generator\<close>

text \<open>
  \<open>next(gen)\<close>: run the body from where it is suspended to its next \<open>yield\<close>, to its end
  (\<open>StopIteration\<close>) or to an exception. The stream is the one the generator was created
  on, in its state at the time of the call.
\<close>

fun gen_next :: "stdlib \<Rightarrow> generator \<Rightarrow> stream \<Rightarrow> step \<times> generator \<times> stream" where
  "gen_next lib (Created ParseCsv csv_delimiter fixed_schema) f =
     parse_csv_start (case csv_delimiter of None \<Rightarrow> '','' | Some d \<Rightarrow> d) f"
| "gen_next lib (Created ParseTsv csv_delimiter fixed_schema) f = parse_csv_start [CHR 0x09] f"
| "gen_next lib (Created ParseJson csv_delimiter fixed_schema) f = parse_json_start lib f"
| "gen_next lib (Created ParseNdjson csv_delimiter fixed_schema) f = parse_ndjson_loop lib f"
| "gen_next lib (Created ParseXml csv_delimiter fixed_schema) f = parse_xml_start lib f"
| "gen_next lib (Created ParseIni csv_delimiter fixed_schema) f = parse_ini_start lib f"
| "gen_next lib (Created ParseText csv_delimiter fixed_schema) f = parse_text_loop 1 f"
| "gen_next lib (Created ParseFixedWidth csv_delimiter fixed_schema) f =
     parse_fixed_start fixed_schema f"
| "gen_next lib (Created ParseUnknown csv_delimiter fixed_schema) f = parse_unknown_loop 1 f"
| "gen_next lib (CsvRows fieldnames delim) f = parse_csv_loop fieldnames delim f"
| "gen_next lib (JsonItems items) f = parse_json_loop items f"
| "gen_next lib NdjsonLines f = parse_ndjson_loop lib f"
| "gen_next lib (XmlChildren cs) f = parse_xml_loop cs f"
| "gen_next lib (IniSections secs) f = parse_ini_loop secs f"
| "gen_next lib (TextLines i) f = parse_text_loop i f"
| "gen_next lib (FixedLines names widths total_width line_no) f =
     parse_fixed_loop names widths total_width line_no f"
| "gen_next lib (UnknownLines i) f = parse_unknown_loop i f"
| "gen_next lib LastYield f = (StopIteration, Finished, f)"
| "gen_next lib Finished f = (StopIteration, Finished, f)"

subsection \<open>\<open>list(gen)\<close>\<close>

text \<open>
  Draining a generator terminates: the first resumption leaves \<open>Created\<close> for good,
  and every later \<open>yield\<close> uses up a line of the stream or an item of the parsed
  document.
\<close>

lemma dictreader_row_consumes:
  "dictreader_row delim ls = (Inr (Some row), rest) \<Longrightarrow> length rest < length ls"
proof (induction delim ls rule: dictreader_row.induct)
  case (1 delim ls)
  obtain res rest' where ri: "reader_iternext delim parse_reset ls = (res, rest')"
    by (cases "reader_iternext delim parse_reset ls")
  have le: "length rest' \<le> length ls" using reader_iternext_length[OF ri] .
  show ?case
  proof (cases "res = Inr (Some [])")
    case True
    with ri "1.prems" have "dictreader_row delim rest' = (Inr (Some row), rest)"
      by (subst (asm) dictreader_row.simps) simp
    with "1.IH"[OF ri[symmetric]] True have "length rest < length rest'" by simp
    with le show ?thesis by simp
  next
    case False
    with ri "1.prems" have eq: "res = Inr (Some row)" "rest' = rest"
      by (subst (asm) dictreader_row.simps, auto split: sum.splits option.splits list.splits)+
    show ?thesis
    proof (cases ls)
      case Nil
      with ri eq show ?thesis by (simp add: parse_reset_def)
    next
      case (Cons l ls')
      with ri eq reader_iternext_consumes[of delim parse_reset l ls' res rest'] show ?thesis by simp
    qed
  qed
qed

lemma ndjson_scan_consumes:
  "ndjson_scan lib ls = (Yield r, rest) \<Longrightarrow> length rest < length ls"
  by (induction ls) (auto simp: Let_def split: if_splits sum.splits exn.splits)

fun pending :: "generator \<Rightarrow> stream \<Rightarrow> nat" where
  "pending (JsonItems items) f = length items"
| "pending (XmlChildren cs) f = length cs"
| "pending (IniSections secs) f = length secs"
| "pending g f = length (s_lines f)"

fun unstarted :: "generator \<Rightarrow> nat" where
  "unstarted (Created d c s) = 1"
| "unstarted g = 0"

lemma parse_csv_loop_dec:
  "parse_csv_loop names d f = (Yield r, g', f') \<Longrightarrow>
     unstarted g' = 0 \<and> pending g' f' < length (s_lines f)"
  by (auto simp: parse_csv_loop_def split: if_splits prod.splits sum.splits option.splits
      dest: dictreader_row_consumes)

lemma parse_csv_start_dec:
  "parse_csv_start d f = (Yield r, g', f') \<Longrightarrow> unstarted g' = 0"
  by (auto simp: parse_csv_start_def split: if_splits prod.splits sum.splits option.splits
      dest!: parse_csv_loop_dec)

lemma gen_next_decreases:
  "gen_next lib g f = (Yield r, g', f') \<Longrightarrow>
     unstarted g' < unstarted g \<or> (unstarted g' = unstarted g \<and> pending g' f' < pending g f)"
proof (cases g)
  case (Created dec c s)
  assume a: "gen_next lib g f = (Yield r, g', f')"
  have "unstarted g' = 0"
  proof (cases dec)
    case ParseCsv with a Created show ?thesis by (auto dest: parse_csv_start_dec)
  next
    case ParseTsv with a Created show ?thesis by (auto dest: parse_csv_start_dec)
  next
    case ParseJson with a Created show ?thesis
      by (auto simp: parse_json_start_def parse_json_loop_def read_all_def
          split: if_splits sum.splits pyval.splits list.splits)
  next
    case ParseNdjson with a Created show ?thesis
      by (auto simp: parse_ndjson_loop_def split: if_splits prod.splits step.splits)
  next
    case ParseXml with a Created show ?thesis
      by (auto simp: parse_xml_start_def parse_xml_loop_def read_all_def
          split: if_splits sum.splits list.splits)
  next
    case ParseIni with a Created show ?thesis
      by (auto simp: parse_ini_start_def parse_ini_loop_def
          split: if_splits sum.splits list.splits prod.splits)
  next
    case ParseText with a Created show ?thesis
      by (auto simp: parse_text_loop_def next_line_def split: if_splits list.splits)
  next
    case ParseFixedWidth with a Created show ?thesis
      by (auto simp: parse_fixed_start_def parse_fixed_loop_def next_line_def Let_def
          split: if_splits list.splits)
  next
    case ParseUnknown with a Created show ?thesis
      by (auto simp: parse_unknown_loop_def next_line_def split: if_splits list.splits)
  qed
  with Created show ?thesis by simp
next
  case (CsvRows names d)
  assume "gen_next lib g f = (Yield r, g', f')"
  with CsvRows show ?thesis by (auto dest: parse_csv_loop_dec)
next
  case (JsonItems items)
  assume "gen_next lib g f = (Yield r, g', f')"
  with JsonItems show ?thesis by (auto simp: parse_json_loop_def split: list.splits)
next
  case NdjsonLines
  assume "gen_next lib g f = (Yield r, g', f')"
  with NdjsonLines show ?thesis
    by (auto simp: parse_ndjson_loop_def split: if_splits prod.splits step.splits
        dest: ndjson_scan_consumes)
next
  case (XmlChildren cs)
  assume "gen_next lib g f = (Yield r, g', f')"
  with XmlChildren show ?thesis by (auto simp: parse_xml_loop_def split: list.splits)
next
  case (IniSections secs)
  assume "gen_next lib g f = (Yield r, g', f')"
  with IniSections show ?thesis
    by (auto simp: parse_ini_loop_def split: list.splits prod.splits sum.splits)
next
  case (TextLines i)
  assume "gen_next lib g f = (Yield r, g', f')"
  with TextLines show ?thesis
    by (auto simp: parse_text_loop_def next_line_def split: if_splits list.splits)
next
  case (FixedLines names widths total i)
  assume "gen_next lib g f = (Yield r, g', f')"
  with FixedLines show ?thesis
    by (auto simp: parse_fixed_loop_def next_line_def split: if_splits list.splits)
next
  case (UnknownLines i)
  assume "gen_next lib g f = (Yield r, g', f')"
  with UnknownLines show ?thesis
    by (auto simp: parse_unknown_loop_def next_line_def split: if_splits list.splits)
next
  case LastYield
  assume "gen_next lib g f = (Yield r, g', f')"
  with LastYield show ?thesis by simp
next
  case Finished
  assume "gen_next lib g f = (Yield r, g', f')"
  with Finished show ?thesis by simp
qed

text \<open>
  \<open>list(gen)\<close>: the records in the order they are yielded, or the exception that
  ended the run; the stream is returned in its final state.
\<close>

function drain :: "stdlib \<Rightarrow> generator \<Rightarrow> stream \<Rightarrow> (exn + pydict list) \<times> stream" where
  "drain lib g f =
     (case gen_next lib g f of
        (Yield r, g', f') \<Rightarrow>
          (case drain lib g' f' of
             (Inl e, f'') \<Rightarrow> (Inl e, f'')
           | (Inr rs, f'') \<Rightarrow> (Inr (r # rs), f''))
      | (StopIteration, g', f') \<Rightarrow> (Inr [], f')
      | (Raise e, g', f') \<Rightarrow> (Inl e, f'))"
  by pat_completeness auto
termination
proof (relation "measures [\<lambda>(lib, g, f). unstarted g, \<lambda>(lib, g, f). pending g f]")
  show "wf (measures [\<lambda>(lib, g, f). unstarted g, \<lambda>(lib, g, f). pending g f])"
    by simp
next
  fix lib g f x1 x2 r g' f'
  assume "(x1, x2) = gen_next lib g f" "(g', f') = x2" "x1 = Yield r"
  then have "gen_next lib g f = (Yield r, g', f')" by simp
  from gen_next_decreases[OF this]
  show "((lib, g', f'), (lib, g, f))
          \<in> measures [\<lambda>(lib, g, f). unstarted g, \<lambda>(lib, g, f). pending g f]"
    by auto
qed

declare drain.simps [simp del]

section \<open>The dispatcher: \<open>FileParser.parse\<close>\<close>

datatype source = Path string | Stream stream

datatype returned = Lazy generator | Eager "pydict list"

text \<open>
  Lines 91 to 93: without a format argument the tag is guessed from the path, or from
  the stream's \<open>name\<close> attribute with \<open>""\<close> as the default; \<open>os.path.splitext\<close>
  rejects a name that is not a string. The tag is lower-cased in either case.
\<close>

definition resolve_format :: "source \<Rightarrow> string option \<Rightarrow> exn + string" where
  "resolve_format path fmt =
     (case fmt of
        Some given \<Rightarrow> Inr (lower given)
      | None \<Rightarrow>
          (case (case path of Path p \<Rightarrow> StrName p | Stream s \<Rightarrow> s_name s) of
             StrName p \<Rightarrow> Inr (lower (guess_format p))
           | NoName \<Rightarrow> Inr (lower (guess_format []))
           | IntName n \<Rightarrow> Inl (TypeError ''expected str, bytes or os.PathLike object, not int'')))"

definition parser_map :: "(string \<times> decoder) list" where
  "parser_map =
     [(''csv'', ParseCsv),
      (''tsv'', ParseTsv),
      (''json'', ParseJson),
      (''ndjson'', ParseNdjson),
      (''jsonl'', ParseNdjson),
      (''xml'', ParseXml),
      (''ini'', ParseIni),
      (''text'', ParseText),
      (''log'', ParseText),
      (''fixed'', ParseFixedWidth),
      (''unknown'', ParseUnknown)]"

text \<open>
  \<open>parse\<close> returns what the call returns or raises, together with the final state of
  the stream the call worked on: the caller's stream, or the file the call opened
  (\<open>None\<close> when it opened none). The \<open>finally\<close> clause closes the file on every way out
  of the \<open>try\<close> block when \<open>close_after\<close> is set.
\<close>

definition source_stream :: "source \<Rightarrow> stream option" where
  "source_stream path = (case path of Path p \<Rightarrow> None | Stream s \<Rightarrow> Some s)"

definition finally_close :: "bool \<Rightarrow> stream \<Rightarrow> stream" where
  "finally_close close_after f = (if close_after then close f else f)"

definition parse ::
  "stdlib \<Rightarrow> filesystem \<Rightarrow> string option \<Rightarrow> source \<Rightarrow> string option \<Rightarrow> string option \<Rightarrow>
   (string \<times> int) list option \<Rightarrow> bool \<Rightarrow> (exn + returned) \<times> stream option" where
  "parse lib fs encoding path fmt csv_delimiter fixed_schema stream =
     (case resolve_format path fmt of
        Inl e \<Rightarrow> (Inl e, source_stream path)
      | Inr fmt' \<Rightarrow>
          (case map_of parser_map fmt' of
             None \<Rightarrow> (Inl (ValueError (''Unsupported format: '' @ fmt')), source_stream path)
           | Some parser \<Rightarrow>
               (case (case path of
                        Path p \<Rightarrow>
                          (case open_file fs p encoding of
                             Inl e \<Rightarrow> Inl e
                           | Inr f \<Rightarrow> Inr (f, True))
                      | Stream s \<Rightarrow> Inr (s, False)) of
                  Inl e \<Rightarrow> (Inl e, None)
                | Inr (f, close_after) \<Rightarrow>
                    (let gen = Created parser csv_delimiter fixed_schema in
                     if stream then (Inr (Lazy gen), Some (finally_close close_after f))
                     else case drain lib gen f of
                            (Inl e, f') \<Rightarrow> (Inl e, Some (finally_close close_after f'))
                          | (Inr recs, f') \<Rightarrow>
                              (Inr (Eager recs), Some (finally_close close_after f'))))))"

section \<open>A reference model of the library parsers\<close>

text \<open>
  The theorems below hold for every library. Closed evaluations need a concrete one;
  this section gives reference models of the three parsers. \<open>json_loads_ref\<close> follows
  \<open>json.loads\<close> on text: the grammar of the \<open>json\<close> module with its defaults
  (\<open>NaN\<close>, \<open>Infinity\<close> and \<open>-Infinity\<close> accepted, control characters refused inside
  strings, a repeated key keeps its first position and its last value). Numbers have no
  size limit; a float is kept as its literal. An escape \<open>\uXXXX\<close> outside ASCII is
  stored as the UTF-8 bytes of the character.
\<close>

subsection \<open>Tokens\<close>

datatype token =
    TLBrace | TRBrace | TLBracket | TRBracket | TColon | TComma
  | TStr string
  | TVal pyval

definition is_digit :: "char \<Rightarrow> bool" where
  "is_digit c = (c \<in> set ''0123456789'')"

definition digit_value :: "char \<Rightarrow> nat" where
  "digit_value c = (case map_of (zip ''0123456789'' [0, 1, 2, 3, 4, 5, 6, 7, 8, 9]) c of
                      Some n \<Rightarrow> n | None \<Rightarrow> 0)"

definition hex_value :: "char \<Rightarrow> nat option" where
  "hex_value c =
     map_of (zip ''0123456789abcdefABCDEF''
       [0, 1, 2, 3, 4, 5, 6, 7, 8, 9, 10, 11, 12, 13, 14, 15, 10, 11, 12, 13, 14, 15]) c"

definition decimal :: "string \<Rightarrow> nat" where
  "decimal ds = foldl (\<lambda>n c. 10 * n + digit_value c) 0 ds"

text \<open>
  A number is \<open>-?(0|[1-9][0-9]*)(\.[0-9]+)?([eE][-+]?[0-9]+)?\<close>; it is an \<open>int\<close> when it
  has neither fraction nor exponent.
\<close>

definition exponent_ok :: "string \<Rightarrow> bool" where
  "exponent_ok s =
     (case s of
        [] \<Rightarrow> True
      | c # r \<Rightarrow>
          (c = CHR ''e'' \<or> c = CHR ''E'') \<and>
          (let ds = (case r of
                       [] \<Rightarrow> []
                     | d # r' \<Rightarrow> if d = CHR ''+'' \<or> d = CHR ''-'' then r' else r)
           in ds \<noteq> [] \<and> list_all is_digit ds))"

definition fraction_ok :: "string \<Rightarrow> bool" where
  "fraction_ok s =
     (case s of
        [] \<Rightarrow> True
      | c # r \<Rightarrow>
          if c = CHR ''.'' then takeWhile is_digit r \<noteq> [] \<and> exponent_ok (dropWhile is_digit r)
          else exponent_ok s)"

definition number_word :: "string \<Rightarrow> pyval option" where
  "number_word w =
     (let neg = (w \<noteq> [] \<and> hd w = CHR ''-'');
          body = (if neg then tl w else w);
          ip = takeWhile is_digit body;
          rest = dropWhile is_digit body
      in if ip = [] \<or> (hd ip = CHR ''0'' \<and> length ip > 1) \<or> \<not> fraction_ok rest then None
         else if rest = [] then Some (VInt (if neg then - int (decimal ip) else int (decimal ip)))
         else Some (VFloat w))"

definition word_token :: "string \<Rightarrow> token option" where
  "word_token w =
     (if w = ''null'' then Some (TVal VNone)
      else if w = ''true'' then Some (TVal (VBool True))
      else if w = ''false'' then Some (TVal (VBool False))
      else if w = ''NaN'' \<or> w = ''Infinity'' \<or> w = ''-Infinity'' then Some (TVal (VFloat w))
      else map_option TVal (number_word w))"

definition utf8 :: "nat \<Rightarrow> string" where
  "utf8 n =
     (if n < 128 then [char_of n]
      else if n < 2048 then [char_of (192 + n div 64), char_of (128 + n mod 64)]
      else if n < 65536
      then [char_of (224 + n div 4096), char_of (128 + (n div 64) mod 64), char_of (128 + n mod 64)]
      else [char_of (240 + n div 262144), char_of (128 + (n div 4096) mod 64),
            char_of (128 + (n div 64) mod 64), char_of (128 + n mod 64)])"

text \<open>
  The scanner reads one character at a time. Inside a string it keeps the text decoded
  so far and a high surrogate waiting for its low half.
\<close>

datatype lstate =
    LBetween
  | LWord string
  | LStr string "nat option"
  | LEsc string "nat option"
  | LHex string "nat option" "nat list"

definition flush :: "string \<Rightarrow> nat option \<Rightarrow> string" where
  "flush acc pend = acc @ (case pend of None \<Rightarrow> [] | Some h \<Rightarrow> utf8 h)"

definition structural :: "char \<Rightarrow> token option" where
  "structural c =
     map_of [(CHR ''{'', TLBrace), (CHR ''}'', TRBrace), (CHR ''['', TLBracket),
             (CHR '']'', TRBracket), (CHR '':'', TColon), (CHR '','', TComma)] c"

definition json_space :: "char \<Rightarrow> bool" where
  "json_space c = (c = CHR '' '' \<or> c = CHR 0x09 \<or> c = CHR 0x0A \<or> c = CHR 0x0D)"

definition escape_char :: "char \<Rightarrow> char option" where
  "escape_char c =
     map_of [(CHR 0x22, CHR 0x22), (CHR 0x5C, CHR 0x5C), (CHR ''/'', CHR ''/''),
             (CHR ''b'', CHR 0x08), (CHR ''f'', CHR 0x0C), (CHR ''n'', CHR 0x0A),
             (CHR ''r'', CHR 0x0D), (CHR ''t'', CHR 0x09)] c"

definition between :: "char \<Rightarrow> token list \<Rightarrow> (lstate \<times> token list) option" where
  "between c toks =
     (if json_space c then Some (LBetween, toks)
      else if c = CHR 0x22 then Some (LStr [] None, toks)
      else case structural c of
             Some t \<Rightarrow> Some (LBetween, toks @ [t])
           | None \<Rightarrow> Some (LWord [c], toks))"

definition code_unit :: "string \<Rightarrow> nat option \<Rightarrow> nat \<Rightarrow> lstate" where
  "code_unit acc pend n =
     (if pend \<noteq> None \<and> 56320 \<le> n \<and> n \<le> 57343
      then LStr (acc @ utf8 (65536 + (the pend - 55296) * 1024 + (n - 56320))) None
      else if 55296 \<le> n \<and> n \<le> 56319 then LStr (flush acc pend) (Some n)
      else LStr (flush acc pend @ utf8 n) None)"

definition lex_step :: "char \<Rightarrow> lstate \<times> token list \<Rightarrow> (lstate \<times> token list) option" where
  "lex_step c st =
     (case st of
        (LBetween, toks) \<Rightarrow> between c toks
      | (LWord w, toks) \<Rightarrow>
          (if json_space c \<or> c = CHR 0x22 \<or> structural c \<noteq> None
           then (case word_token w of
                   None \<Rightarrow> None
                 | Some t \<Rightarrow> between c (toks @ [t]))
           else Some (LWord (w @ [c]), toks))
      | (LStr acc pend, toks) \<Rightarrow>
          (if c = CHR 0x22 then Some (LBetween, toks @ [TStr (flush acc pend)])
           else if c = CHR 0x5C then Some (LEsc acc pend, toks)
           else if (of_char c :: nat) < 32 then None
           else Some (LStr (flush acc pend @ [c]) None, toks))
      | (LEsc acc pend, toks) \<Rightarrow>
          (if c = CHR ''u'' then Some (LHex acc pend [], toks)
           else case escape_char c of
                  None \<Rightarrow> None
                | Some d \<Rightarrow> Some (LStr (flush acc pend @ [d]) None, toks))
      | (LHex acc pend ds, toks) \<Rightarrow>
          (case hex_value c of
             None \<Rightarrow> None
           | Some d \<Rightarrow>
               if length ds < 3 then Some (LHex acc pend (ds @ [d]), toks)
               else Some (code_unit acc pend (foldl (\<lambda>n x. 16 * n + x) 0 (ds @ [d])), toks)))"

fun lex_chars :: "string \<Rightarrow> lstate \<times> token list \<Rightarrow> (lstate \<times> token list) option" where
  "lex_chars [] st = Some st"
| "lex_chars (c # cs) st =
     (case lex_step c st of None \<Rightarrow> None | Some st' \<Rightarrow> lex_chars cs st')"

definition tokenize :: "string \<Rightarrow> token list option" where
  "tokenize s =
     (case lex_chars s (LBetween, []) of
        Some (LBetween, toks) \<Rightarrow> Some toks
      | Some (LWord w, toks) \<Rightarrow> map_option (\<lambda>t. toks @ [t]) (word_token w)
      | _ \<Rightarrow> None)"

subsection \<open>Values from tokens\<close>

text \<open>
  The parser keeps the containers that are still open, innermost first, and what may
  come next. An object under construction remembers the key waiting for its value.
\<close>

datatype container = CArr "pyval list" | CObj "(pykey \<times> pyval) list" "string option"

datatype pmode = PValue | PValueOrClose | PKeyOrClose | PKey | PColon | PCommaOrClose | PDone pyval

fun deliver :: "pyval \<Rightarrow> container list \<Rightarrow> (container list \<times> pmode) option" where
  "deliver v [] = Some ([], PDone v)"
| "deliver v (CArr vs # st) = Some (CArr (vs @ [v]) # st, PCommaOrClose)"
| "deliver v (CObj kvs (Some k) # st) = Some (CObj (dict_set (KStr k) v kvs) None # st, PCommaOrClose)"
| "deliver v (CObj kvs None # st) = None"

fun close_array :: "container list \<Rightarrow> (container list \<times> pmode) option" where
  "close_array (CArr vs # st) = deliver (VList vs) st"
| "close_array st = None"

fun close_object :: "container list \<Rightarrow> (container list \<times> pmode) option" where
  "close_object (CObj kvs None # st) = deliver (VDict kvs) st"
| "close_object st = None"

fun take_key :: "string \<Rightarrow> container list \<Rightarrow> (container list \<times> pmode) option" where
  "take_key k (CObj kvs None # st) = Some (CObj kvs (Some k) # st, PColon)"
| "take_key k st = None"

fun start_value :: "token \<Rightarrow> container list \<Rightarrow> (container list \<times> pmode) option" where
  "start_value TLBrace st = Some (CObj [] None # st, PKeyOrClose)"
| "start_value TLBracket st = Some (CArr [] # st, PValueOrClose)"
| "start_value (TStr s) st = deliver (VStr s) st"
| "start_value (TVal v) st = deliver v st"
| "start_value t st = None"

fun after_comma :: "container list \<Rightarrow> (container list \<times> pmode) option" where
  "after_comma (CArr vs # st) = Some (CArr vs # st, PValue)"
| "after_comma (CObj kvs None # st) = Some (CObj kvs None # st, PKey)"
| "after_comma st = None"

fun pstep :: "token \<Rightarrow> container list \<times> pmode \<Rightarrow> (container list \<times> pmode) option" where
  "pstep t (st, PValue) = start_value t st"
| "pstep t (st, PValueOrClose) = (if t = TRBracket then close_array st else start_value t st)"
| "pstep t (st, PKeyOrClose) =
     (case t of TStr k \<Rightarrow> take_key k st | TRBrace \<Rightarrow> close_object st | _ \<Rightarrow> None)"
| "pstep t (st, PKey) = (case t of TStr k \<Rightarrow> take_key k st | _ \<Rightarrow> None)"
| "pstep t (st, PColon) = (if t = TColon then Some (st, PValue) else None)"
| "pstep t (st, PCommaOrClose) =
     (case t of
        TComma \<Rightarrow> after_comma st
      | TRBracket \<Rightarrow> close_array st
      | TRBrace \<Rightarrow> close_object st
      | _ \<Rightarrow> None)"
| "pstep t (st, PDone v) = None"

fun parse_tokens :: "token list \<Rightarrow> container list \<times> pmode \<Rightarrow> (container list \<times> pmode) option" where
  "parse_tokens [] st = Some st"
| "parse_tokens (t # ts) st =
     (case pstep t st of None \<Rightarrow> None | Some st' \<Rightarrow> parse_tokens ts st')"

definition json_loads_ref :: "string \<Rightarrow> exn + pyval" where
  "json_loads_ref s =
     (case tokenize s of
        None \<Rightarrow> Inl JSONDecodeError
      | Some toks \<Rightarrow>
          (case parse_tokens toks ([], PValue) of
             Some ([], PDone v) \<Rightarrow> Inr v
           | _ \<Rightarrow> Inl JSONDecodeError))"

subsection \<open>Element trees from text\<close>

text \<open>
  \<open>et_parse_ref\<close> follows \<open>ElementTree.parse\<close> on the fragment of documents made of
  elements, attributes and character data, with ASCII names. Declarations, comments,
  processing instructions, entity and character references and carriage returns are
  outside the fragment and reported as \<open>ParseError\<close>, as every ill-formed document is
  (the empty document included: it has no root element). An element's text is the
  character data before its first child, absent when there is none.
\<close>

definition xml_space :: "char \<Rightarrow> bool" where
  "xml_space c = (c = CHR '' '' \<or> c = CHR 0x09 \<or> c = CHR 0x0A)"

definition name_start :: "char \<Rightarrow> bool" where
  "name_start c =
     (c \<in> set ''abcdefghijklmnopqrstuvwxyzABCDEFGHIJKLMNOPQRSTUVWXYZ_:'')"

definition name_char :: "char \<Rightarrow> bool" where
  "name_char c = (name_start c \<or> c \<in> set ''0123456789-.'')"

type_synonym attrs = "(string \<times> string) list"

text \<open>An element that is still open: tag, attributes, leading text, children so far.\<close>

type_synonym open_element = "string \<times> attrs \<times> string \<times> element list"

record builder =
  b_open :: "open_element list"
  b_root :: "element option"

datatype xstate =
    XContent string
  | XLt
  | XOpenName string
  | XInTag string attrs
  | XAttrName string attrs string
  | XAfterAttrName string attrs string
  | XAfterEq string attrs string
  | XAttrValue string attrs string char string
  | XAfterValue string attrs
  | XSlash string attrs
  | XCloseName string
  | XCloseSpace string

definition add_text :: "string \<Rightarrow> builder \<Rightarrow> builder option" where
  "add_text chunk b =
     (case b_open b of
        [] \<Rightarrow> if list_all xml_space chunk then Some b else None
      | (tag, at, txt, kids) # rest \<Rightarrow>
          Some (b\<lparr>b_open := (tag, at, (if kids = [] then txt @ chunk else txt), kids) # rest\<rparr>))"

definition start_tag :: "string \<Rightarrow> attrs \<Rightarrow> builder \<Rightarrow> builder option" where
  "start_tag tag at b =
     (if b_open b = [] \<and> b_root b \<noteq> None then None
      else Some (b\<lparr>b_open := (tag, at, [], []) # b_open b\<rparr>))"

definition end_tag :: "string \<Rightarrow> builder \<Rightarrow> builder option" where
  "end_tag name b =
     (case b_open b of
        [] \<Rightarrow> None
      | (tag, at, txt, kids) # rest \<Rightarrow>
          if tag \<noteq> name then None
          else let el = Element tag at (if txt = [] then None else Some txt) kids in
               (case rest of
                  [] \<Rightarrow> Some (b\<lparr>b_open := [], b_root := Some el\<rparr>)
                | (ptag, pat, ptxt, pkids) # rest' \<Rightarrow>
                    Some (b\<lparr>b_open := (ptag, pat, ptxt, pkids @ [el]) # rest'\<rparr>)))"

definition empty_tag :: "string \<Rightarrow> attrs \<Rightarrow> builder \<Rightarrow> builder option" where
  "empty_tag tag at b = (case start_tag tag at b of None \<Rightarrow> None | Some b' \<Rightarrow> end_tag tag b')"

definition with_state :: "xstate \<Rightarrow> builder option \<Rightarrow> (xstate \<times> builder) option" where
  "with_state st b = map_option (\<lambda>b'. (st, b')) b"

definition in_tag :: "char \<Rightarrow> string \<Rightarrow> attrs \<Rightarrow> builder \<Rightarrow> (xstate \<times> builder) option" where
  "in_tag c tag at b =
     (if xml_space c then Some (XInTag tag at, b)
      else if c = CHR ''>'' then with_state (XContent []) (start_tag tag at b)
      else if c = CHR ''/'' then Some (XSlash tag at, b)
      else None)"

definition xml_step :: "char \<Rightarrow> xstate \<times> builder \<Rightarrow> (xstate \<times> builder) option" where
  "xml_step c sb =
     (case sb of
        (XContent chunk, b) \<Rightarrow>
          (if c = CHR ''<'' then with_state XLt (add_text chunk b)
           else if c = CHR ''&'' \<or> c = CHR 0x0D then None
           else Some (XContent (chunk @ [c]), b))
      | (XLt, b) \<Rightarrow>
          (if c = CHR ''/'' then Some (XCloseName [], b)
           else if name_start c then Some (XOpenName [c], b)
           else None)
      | (XOpenName tag, b) \<Rightarrow>
          (if name_char c then Some (XOpenName (tag @ [c]), b) else in_tag c tag [] b)
      | (XInTag tag at, b) \<Rightarrow>
          (if name_start c then Some (XAttrName tag at [c], b) else in_tag c tag at b)
      | (XAttrName tag at an, b) \<Rightarrow>
          (if name_char c then Some (XAttrName tag at (an @ [c]), b)
           else if xml_space c then Some (XAfterAttrName tag at an, b)
           else if c = CHR ''='' then Some (XAfterEq tag at an, b)
           else None)
      | (XAfterAttrName tag at an, b) \<Rightarrow>
          (if xml_space c then Some (XAfterAttrName tag at an, b)
           else if c = CHR ''='' then Some (XAfterEq tag at an, b)
           else None)
      | (XAfterEq tag at an, b) \<Rightarrow>
          (if xml_space c then Some (XAfterEq tag at an, b)
           else if c = CHR 0x22 \<or> c = CHR 0x27 then Some (XAttrValue tag at an c [], b)
           else None)
      | (XAttrValue tag at an q v, b) \<Rightarrow>
          (if c = q then
             (if an \<in> fst ` set at then None else Some (XAfterValue tag (at @ [(an, v)]), b))
           else if c = CHR ''<'' \<or> c = CHR ''&'' \<or> c = CHR 0x0D then None
           else Some (XAttrValue tag at an q (v @ [if xml_space c then CHR '' '' else c]), b))
      | (XAfterValue tag at, b) \<Rightarrow> in_tag c tag at b
      | (XSlash tag at, b) \<Rightarrow>
          (if c = CHR ''>'' then with_state (XContent []) (empty_tag tag at b) else None)
      | (XCloseName name, b) \<Rightarrow>
          (if (if name = [] then name_start c else name_char c) then Some (XCloseName (name @ [c]), b)
           else if name = [] then None
           else if xml_space c then Some (XCloseSpace name, b)
           else if c = CHR ''>'' then with_state (XContent []) (end_tag name b)
           else None)
      | (XCloseSpace name, b) \<Rightarrow>
          (if xml_space c then Some (XCloseSpace name, b)
           else if c = CHR ''>'' then with_state (XContent []) (end_tag name b)
           else None))"

fun xml_chars :: "string \<Rightarrow> xstate \<times> builder \<Rightarrow> (xstate \<times> builder) option" where
  "xml_chars [] sb = Some sb"
| "xml_chars (c # cs) sb =
     (case xml_step c sb of None \<Rightarrow> None | Some sb' \<Rightarrow> xml_chars cs sb')"

definition et_parse_ref :: "string \<Rightarrow> exn + element" where
  "et_parse_ref doc =
     (case xml_chars doc (XContent [], \<lparr>b_open = [], b_root = None\<rparr>) of
        Some (XContent chunk, b) \<Rightarrow>
          (if b_open b = [] \<and> list_all xml_space chunk
           then (case b_root b of None \<Rightarrow> Inl ParseError | Some root \<Rightarrow> Inr root)
           else Inl ParseError)
      | _ \<Rightarrow> Inl ParseError)"

subsection \<open>Configuration sections from lines\<close>

text \<open>
  \<open>cfg_read_file_ref\<close> follows \<open>ConfigParser.read_file\<close> and \<open>items\<close> with the default
  settings on the fragment of files made of blank lines, comment lines (\<open>#\<close>, \<open>;\<close>),
  section headers and unindented \<open>key = value\<close> or \<open>key: value\<close> lines. Option names are
  lower-cased. A line before the first header, a line without a delimiter, an empty
  option name and a repeated section or option are errors of the library; indented
  lines, a \<open>DEFAULT\<close> section and values with \<open>%\<close> are outside the fragment. Both are
  reported as \<open>ConfigParserError\<close>.
\<close>

definition is_delim :: "char \<Rightarrow> bool" where
  "is_delim c = (c = CHR ''='' \<or> c = CHR '':'')"

definition header_of :: "string \<Rightarrow> string option" where
  "header_of v =
     (if length v \<ge> 3 \<and> hd v = CHR ''['' \<and> last v = CHR '']'' \<and> CHR '']'' \<notin> set (butlast (tl v))
      then Some (butlast (tl v)) else None)"

definition add_option ::
  "string \<Rightarrow> string \<Rightarrow> (string \<times> (string \<times> string) list) list \<Rightarrow>
   (string \<times> (string \<times> string) list) list option" where
  "add_option k v secs =
     (case rev secs of
        [] \<Rightarrow> None
      | (name, items) # earlier \<Rightarrow>
          if k = [] \<or> k \<in> fst ` set items \<or> CHR ''%'' \<in> set v then None
          else Some (rev earlier @ [(name, items @ [(k, v)])]))"

fun cfg_lines ::
  "string list \<Rightarrow> (string \<times> (string \<times> string) list) list \<Rightarrow>
   (string \<times> (string \<times> string) list) list option" where
  "cfg_lines [] secs = Some secs"
| "cfg_lines (line # rest) secs =
     (let v = strip line in
      if v = [] \<or> hd v = CHR ''#'' \<or> hd v = CHR '';'' then cfg_lines rest secs
      else if is_space (hd line) then None
      else if hd v = CHR ''['' then
        (case header_of v of
           None \<Rightarrow> None
         | Some name \<Rightarrow>
             if name = ''DEFAULT'' \<or> name \<in> fst ` set secs then None
             else cfg_lines rest (secs @ [(name, [])]))
      else if \<not> list_ex is_delim v then None
      else (case add_option (lower (rstrip (takeWhile (\<lambda>c. \<not> is_delim c) v)))
                  (strip (tl (dropWhile (\<lambda>c. \<not> is_delim c) v))) secs of
              None \<Rightarrow> None
            | Some secs' \<Rightarrow> cfg_lines rest secs'))"

definition cfg_read_file_ref :: "string list \<Rightarrow> exn + section_items list" where
  "cfg_read_file_ref ls =
     (case cfg_lines ls [] of
        None \<Rightarrow> Inl ConfigParserError
      | Some secs \<Rightarrow> Inr (map (\<lambda>(name, items). (name, Inr items)) secs))"

definition reference_lib :: stdlib where
  "reference_lib =
     \<lparr>json_loads = json_loads_ref, et_parse = et_parse_ref, cfg_read_file = cfg_read_file_ref\<rparr>"

section \<open>Properties of the format resolver\<close>

text \<open>The last component of a path: what follows its last \<open>/\<close>.\<close>

definition basename :: "string \<Rightarrow> string" where
  "basename p = drop (nat (rfind CHR ''/'' p + 1)) p"

lemma rfind_bounds: "- 1 \<le> rfind c s \<and> rfind c s < int (length s)"
  by (induction s) (auto simp: Let_def)

lemma rfind_notin: "c \<notin> set s \<Longrightarrow> rfind c s = - 1"
  by (induction s) (auto simp: Let_def)

lemma rfind_nth: "0 \<le> rfind c s \<Longrightarrow> s ! nat (rfind c s) = c"
proof (induction s)
  case Nil
  then show ?case by simp
next
  case (Cons x xs)
  show ?case
  proof (cases "0 \<le> rfind c xs")
    case True
    with Cons.IH show ?thesis by (simp add: Let_def nat_add_distrib)
  next
    case False
    with Cons.prems show ?thesis by (auto simp: Let_def split: if_splits)
  qed
qed

lemma rfind_append_last: "c \<notin> set ys \<Longrightarrow> rfind c (xs @ c # ys) = int (length xs)"
  by (induction xs) (auto simp: Let_def rfind_notin)

lemma rfind_append_notin: "c \<notin> set ys \<Longrightarrow> rfind c (xs @ ys) = rfind c xs"
  by (induction xs) (auto simp: Let_def rfind_notin)

lemma pyslice_single:
  "0 \<le> i \<Longrightarrow> i < int (length p) \<Longrightarrow> pyslice p i (i + 1) = [p ! nat i]"
  apply (simp add: pyslice_def Let_def)
  by (metis Cons_nth_drop_Suc nat_less_iff take0 take_Suc_Cons)

lemma pyslice_prefix: "pyslice (xs @ ys) 0 (int (length xs)) = xs"
  by (simp add: pyslice_def Let_def)

lemma pyslice_suffix: "pyslice (xs @ ys) (int (length xs)) (int (length (xs @ ys))) = ys"
  by (simp add: pyslice_def Let_def)

text \<open>
  The loop over the leading dots: it finds the extension when some character of the
  last component before the last dot is not a dot, and gives none otherwise.
\<close>

lemma splitext_loop_found:
  "0 \<le> i \<Longrightarrow> i \<le> int (length stem) \<Longrightarrow> \<exists>c \<in> set (drop (nat i) stem). c \<noteq> CHR ''.'' \<Longrightarrow>
   splitext_loop (stem @ CHR ''.'' # e) i (int (length stem)) = (stem, CHR ''.'' # e)"
proof (induction "stem @ CHR ''.'' # e" i "int (length stem)" rule: splitext_loop.induct)
  case (1 i)
  from "1.prems" have lt: "i < int (length stem)"
    by (cases "i = int (length stem)") auto
  show ?case
  proof (cases "stem ! nat i = CHR ''.''")
    case True
    have "drop (nat i) stem = stem ! nat i # drop (nat (i + 1)) stem"
      using lt "1.prems"(1) by (simp add: Cons_nth_drop_Suc nat_add_distrib)
    with True "1.prems" have ex: "\<exists>c \<in> set (drop (nat (i + 1)) stem). c \<noteq> CHR ''.''" by auto
    have sl: "pyslice (stem @ CHR ''.'' # e) i (i + 1) = ''.''"
      using lt "1.prems"(1) True by (simp add: pyslice_single nth_append)
    have "splitext_loop (stem @ CHR ''.'' # e) (i + 1) (int (length stem)) = (stem, CHR ''.'' # e)"
      using "1.hyps"[OF lt _ _ _ ex] sl "1.prems"(1) lt by simp
    then show ?thesis using lt sl by (subst splitext_loop.simps) simp
  next
    case False
    have sl: "pyslice (stem @ CHR ''.'' # e) i (i + 1) \<noteq> ''.''"
      using lt "1.prems"(1) False by (simp add: pyslice_single nth_append)
    show ?thesis
      using lt sl pyslice_prefix[of stem "CHR ''.'' # e"] pyslice_suffix[of stem "CHR ''.'' # e"]
      by (subst splitext_loop.simps) simp
  qed
qed

lemma splitext_loop_dots:
  "0 \<le> i \<Longrightarrow> \<forall>c \<in> set (drop (nat i) stem). c = CHR ''.'' \<Longrightarrow>
   splitext_loop (stem @ CHR ''.'' # e) i (int (length stem)) = (stem @ CHR ''.'' # e, [])"
proof (induction "stem @ CHR ''.'' # e" i "int (length stem)" rule: splitext_loop.induct)
  case (1 i)
  show ?case
  proof (cases "i < int (length stem)")
    case lt: True
    have d: "drop (nat i) stem = stem ! nat i # drop (nat (i + 1)) stem"
      using lt "1.prems"(1) by (simp add: Cons_nth_drop_Suc nat_add_distrib)
    with "1.prems" have dot: "stem ! nat i = CHR ''.''" and
      all: "\<forall>c \<in> set (drop (nat (i + 1)) stem). c = CHR ''.''" by auto
    have sl: "pyslice (stem @ CHR ''.'' # e) i (i + 1) = ''.''"
      using lt "1.prems"(1) dot by (simp add: pyslice_single nth_append)
    have "splitext_loop (stem @ CHR ''.'' # e) (i + 1) (int (length stem))
            = (stem @ CHR ''.'' # e, [])"
      using "1.hyps"[OF lt _ _ all] sl "1.prems"(1) by simp
    then show ?thesis using lt sl by (subst splitext_loop.simps) simp
  next
    case False
    then show ?thesis by (subst splitext_loop.simps) simp
  qed
qed

lemma splitext_ext:
  assumes "CHR ''/'' \<notin> set e" "CHR ''.'' \<notin> set e"
    and "\<exists>c \<in> set (basename stem). c \<noteq> CHR ''.''"
  shows "splitext (stem @ CHR ''.'' # e) = (stem, CHR ''.'' # e)"
proof -
  have sep: "rfind CHR ''/'' (stem @ CHR ''.'' # e) = rfind CHR ''/'' stem"
    using assms(1) by (simp add: rfind_append_notin)
  have dot: "rfind CHR ''.'' (stem @ CHR ''.'' # e) = int (length stem)"
    using assms(2) by (simp add: rfind_append_last)
  have b: "- 1 \<le> rfind CHR ''/'' stem" "rfind CHR ''/'' stem < int (length stem)"
    using rfind_bounds[of "CHR ''/''" stem] by auto
  show ?thesis
    unfolding splitext_def sep dot Let_def
    using b assms(3) splitext_loop_found[of "rfind CHR ''/'' stem + 1" stem e]
    by (simp add: basename_def)
qed

lemma splitext_no_stem:
  assumes "CHR ''/'' \<notin> set e" "CHR ''.'' \<notin> set e"
    and "\<forall>c \<in> set (basename stem). c = CHR ''.''"
  shows "splitext (stem @ CHR ''.'' # e) = (stem @ CHR ''.'' # e, [])"
proof -
  have sep: "rfind CHR ''/'' (stem @ CHR ''.'' # e) = rfind CHR ''/'' stem"
    using assms(1) by (simp add: rfind_append_notin)
  have dot: "rfind CHR ''.'' (stem @ CHR ''.'' # e) = int (length stem)"
    using assms(2) by (simp add: rfind_append_last)
  have b: "- 1 \<le> rfind CHR ''/'' stem" "rfind CHR ''/'' stem < int (length stem)"
    using rfind_bounds[of "CHR ''/''" stem] by auto
  show ?thesis
    unfolding splitext_def sep dot Let_def
    using b assms(3) splitext_loop_dots[of "rfind CHR ''/'' stem + 1" stem e]
    by (simp add: basename_def)
qed

lemma dot_in_basename:
  assumes "rfind CHR ''/'' p < rfind CHR ''.'' p"
  shows "CHR ''.'' \<in> set (basename p)"
proof -
  let ?d = "rfind CHR ''.'' p" and ?s = "rfind CHR ''/'' p"
  have b: "- 1 \<le> ?s" "?d < int (length p)"
    using rfind_bounds[of "CHR ''/''" p] rfind_bounds[of "CHR ''.''" p] by auto
  with assms have d0: "0 \<le> ?d" by simp
  have "p ! nat ?d = CHR ''.''" using rfind_nth[OF d0] .
  moreover have "nat (?s + 1) \<le> nat ?d" "nat ?d < length p" using assms b d0 by auto
  ultimately have "drop (nat (?s + 1)) p ! (nat ?d - nat (?s + 1)) = CHR ''.''"
    and "nat ?d - nat (?s + 1) < length (drop (nat (?s + 1)) p)"
    by simp_all
  then show ?thesis
    unfolding basename_def using nth_mem by metis
qed

lemma splitext_no_dot: "CHR ''.'' \<notin> set (basename p) \<Longrightarrow> splitext p = (p, [])"
  using dot_in_basename[of p] by (auto simp: splitext_def Let_def)

lemma lower_dot: "lower (CHR ''.'' # e) = CHR ''.'' # lower e"
  by (simp add: lower_def lower_char_def)

lemma guess_format_range:
  "guess_format p \<in> set [''csv'', ''tsv'', ''json'', ''ndjson'', ''xml'', ''ini'', ''text'', ''unknown'']"
  by (simp add: guess_format_def Let_def)

text \<open>
  C8. The format resolver is a total function from path strings to format tags. A path
  whose last component is \<open>stem.e\<close>, with \<open>e\<close> free of dots and the stem not made of dots
  only, resolves by the lower-cased \<open>e\<close> through the fixed table (csv; tsv, tab; json;
  ndjson, jsonl; xml; ini, cfg; txt, log) and to \<open>unknown\<close> for any other \<open>e\<close>. A path
  with no extension (no dot in its last component, or only leading dots before \<open>e\<close>)
  resolves to \<open>unknown\<close>. An explicit format argument is taken as it is (lower-cased),
  whatever the source is: the resolver is not consulted.
\<close>

theorem guess_format_table:
  "(CHR ''/'' \<notin> set e \<and> CHR ''.'' \<notin> set e \<and> (\<exists>c \<in> set (basename stem). c \<noteq> CHR ''.'') \<longrightarrow>
      guess_format (stem @ ''.'' @ e) =
        (if lower e = ''csv'' then ''csv''
         else if lower e = ''tsv'' \<or> lower e = ''tab'' then ''tsv''
         else if lower e = ''json'' then ''json''
         else if lower e = ''ndjson'' \<or> lower e = ''jsonl'' then ''ndjson''
         else if lower e = ''xml'' then ''xml''
         else if lower e = ''ini'' \<or> lower e = ''cfg'' then ''ini''
         else if lower e = ''txt'' \<or> lower e = ''log'' then ''text''
         else ''unknown''))
   \<and> (CHR ''.'' \<notin> set (basename p) \<longrightarrow> guess_format p = ''unknown'')
   \<and> (CHR ''/'' \<notin> set e \<and> CHR ''.'' \<notin> set e \<and> (\<forall>c \<in> set (basename stem). c = CHR ''.'') \<longrightarrow>
        guess_format (stem @ ''.'' @ e) = ''unknown'')
   \<and> guess_format p \<in>
        set [''csv'', ''tsv'', ''json'', ''ndjson'', ''xml'', ''ini'', ''text'', ''unknown'']
   \<and> resolve_format src (Some given) = Inr (lower given)"
proof (intro conjI impI)
  assume "CHR ''/'' \<notin> set e \<and> CHR ''.'' \<notin> set e \<and> (\<exists>c \<in> set (basename stem). c \<noteq> CHR ''.'')"
  then have "splitext (stem @ CHR ''.'' # e) = (stem, CHR ''.'' # e)"
    using splitext_ext by blast
  then show "guess_format (stem @ ''.'' @ e) =
        (if lower e = ''csv'' then ''csv''
         else if lower e = ''tsv'' \<or> lower e = ''tab'' then ''tsv''
         else if lower e = ''json'' then ''json''
         else if lower e = ''ndjson'' \<or> lower e = ''jsonl'' then ''ndjson''
         else if lower e = ''xml'' then ''xml''
         else if lower e = ''ini'' \<or> lower e = ''cfg'' then ''ini''
         else if lower e = ''txt'' \<or> lower e = ''log'' then ''text''
         else ''unknown'')"
    by (simp add: guess_format_def lower_dot)
next
  assume "CHR ''.'' \<notin> set (basename p)"
  then show "guess_format p = ''unknown''"
    by (simp add: guess_format_def splitext_no_dot lower_def)
next
  assume "CHR ''/'' \<notin> set e \<and> CHR ''.'' \<notin> set e \<and> (\<forall>c \<in> set (basename stem). c = CHR ''.'')"
  then have "splitext (stem @ CHR ''.'' # e) = (stem @ CHR ''.'' # e, [])"
    using splitext_no_stem by blast
  then show "guess_format (stem @ ''.'' @ e) = ''unknown''"
    by (simp add: guess_format_def lower_def)
next
  show "guess_format p \<in>
        set [''csv'', ''tsv'', ''json'', ''ndjson'', ''xml'', ''ini'', ''text'', ''unknown'']"
    by (rule guess_format_range)
next
  show "resolve_format src (Some given) = Inr (lower given)"
    by (simp add: resolve_format_def)
qed

theorem guess_format_table_witness:
  "guess_format ''/data/report.v2.JSONL'' = ''ndjson''
   \<and> guess_format ''/data.d/notes'' = ''unknown''
   \<and> guess_format ''/data/.csv'' = ''unknown''
   \<and> resolve_format (Path ''/data/report.csv'') (Some ''Fixed'') = Inr ''fixed''"
proof -
  have b: "basename ''/data/report.v2'' = ''report.v2''" "basename ''/data.d/notes'' = ''notes''"
    "basename ''/data/'' = ''''"
    by (simp_all add: basename_def Let_def)
  have l: "lower ''JSONL'' = ''jsonl''" "lower ''Fixed'' = ''fixed''"
    by (simp_all add: lower_def lower_char_def)
  show ?thesis
    using guess_format_table[of "''JSONL''" "''/data/report.v2''" "''/data.d/notes''"
        "Path ''/data/report.csv''" "''Fixed''"]
      guess_format_table[of "''csv''" "''/data/''" "''/data.d/notes''"
        "Path ''/data/report.csv''" "''Fixed''"]
    by (simp add: b l)
qed

section \<open>Evaluation on concrete inputs\<close>

text \<open>The defining equations used to evaluate the model on concrete inputs.\<close>

lemmas text_defs =
  lower_def lower_char_def is_space_def lstrip_def rstrip_def strip_def rstrip_nl_def ljust_def
  pyslice_def

lemmas resolver_defs =
  guess_format_def splitext_def splitext_loop.simps resolve_format_def parser_map_def

lemmas stream_defs =
  closed_error_def close_def next_line_def read_all_def py_open_def open_file_def
  source_stream_def finally_close_def


lemmas decoder_defs =
  as_record_def parse_json_loop_def parse_json_start_def parse_ndjson_loop_def text_value_def
  add_sub_def child_record_def parse_xml_loop_def parse_xml_start_def section_record_def
  parse_ini_loop_def parse_ini_start_def line_record_def parse_text_loop_def
  parse_unknown_loop_def fixed_record_def parse_fixed_loop_def parse_fixed_start_def

lemmas json_ref_defs =
  is_digit_def digit_value_def hex_value_def decimal_def exponent_ok_def fraction_ok_def
  number_word_def word_token_def flush_def structural_def json_space_def escape_char_def
  between_def code_unit_def lex_step_def tokenize_def json_loads_ref_def

lemmas xml_ref_defs =
  xml_space_def name_start_def name_char_def add_text_def start_tag_def end_tag_def
  empty_tag_def with_state_def in_tag_def xml_step_def et_parse_ref_def

lemmas cfg_ref_defs =
  is_delim_def header_of_def add_option_def cfg_read_file_ref_def

lemmas reference_defs = json_ref_defs xml_ref_defs cfg_ref_defs reference_lib_def

section \<open>Stream lifetime\<close>

text \<open>No decoder closes or reopens the stream it reads: resuming a generator, and
  draining it, leave the closed flag and the name of the stream as they were.\<close>

lemma gen_next_closed:
  "gen_next lib g f = (st, g', f') \<Longrightarrow> s_closed f' = s_closed f \<and> s_name f' = s_name f"
proof (cases g)
  case (Created dec c s)
  assume a: "gen_next lib g f = (st, g', f')"
  show ?thesis
  proof (cases dec)
    case ParseCsv with a Created show ?thesis
      by (auto simp: parse_csv_start_def parse_csv_loop_def
          split: if_splits prod.splits sum.splits option.splits)
  next
    case ParseTsv with a Created show ?thesis
      by (auto simp: parse_csv_start_def parse_csv_loop_def
          split: if_splits prod.splits sum.splits option.splits)
  next
    case ParseJson with a Created show ?thesis
      by (auto simp: parse_json_start_def parse_json_loop_def read_all_def
          split: if_splits sum.splits pyval.splits list.splits)
  next
    case ParseNdjson with a Created show ?thesis
      by (auto simp: parse_ndjson_loop_def split: if_splits prod.splits step.splits)
  next
    case ParseXml with a Created show ?thesis
      by (auto simp: parse_xml_start_def parse_xml_loop_def read_all_def
          split: if_splits sum.splits list.splits)
  next
    case ParseIni with a Created show ?thesis
      by (auto simp: parse_ini_start_def parse_ini_loop_def
          split: if_splits sum.splits list.splits prod.splits)
  next
    case ParseText with a Created show ?thesis
      by (auto simp: parse_text_loop_def next_line_def split: if_splits list.splits)
  next
    case ParseFixedWidth with a Created show ?thesis
      by (auto simp: parse_fixed_start_def parse_fixed_loop_def next_line_def Let_def
          split: if_splits list.splits)
  next
    case ParseUnknown with a Created show ?thesis
      by (auto simp: parse_unknown_loop_def next_line_def split: if_splits list.splits)
  qed
next
  case (CsvRows names d)
  assume "gen_next lib g f = (st, g', f')"
  with CsvRows show ?thesis
    by (auto simp: parse_csv_loop_def split: if_splits prod.splits sum.splits option.splits)
next
  case (JsonItems items)
  assume "gen_next lib g f = (st, g', f')"
  with JsonItems show ?thesis by (auto simp: parse_json_loop_def split: list.splits)
next
  case NdjsonLines
  assume "gen_next lib g f = (st, g', f')"
  with NdjsonLines show ?thesis
    by (auto simp: parse_ndjson_loop_def split: if_splits prod.splits step.splits)
next
  case (XmlChildren cs)
  assume "gen_next lib g f = (st, g', f')"
  with XmlChildren show ?thesis by (auto simp: parse_xml_loop_def split: list.splits)
next
  case (IniSections secs)
  assume "gen_next lib g f = (st, g', f')"
  with IniSections show ?thesis
    by (auto simp: parse_ini_loop_def split: list.splits prod.splits sum.splits)
next
  case (TextLines i)
  assume "gen_next lib g f = (st, g', f')"
  with TextLines show ?thesis
    by (auto simp: parse_text_loop_def next_line_def split: if_splits list.splits)
next
  case (FixedLines names widths total i)
  assume "gen_next lib g f = (st, g', f')"
  with FixedLines show ?thesis
    by (auto simp: parse_fixed_loop_def next_line_def split: if_splits list.splits)
next
  case (UnknownLines i)
  assume "gen_next lib g f = (st, g', f')"
  with UnknownLines show ?thesis
    by (auto simp: parse_unknown_loop_def next_line_def split: if_splits list.splits)
next
  case LastYield
  assume "gen_next lib g f = (st, g', f')"
  with LastYield show ?thesis by simp
next
  case Finished
  assume "gen_next lib g f = (st, g', f')"
  with Finished show ?thesis by simp
qed

lemma drain_closed:
  "drain lib g f = (res, f') \<Longrightarrow> s_closed f' = s_closed f \<and> s_name f' = s_name f"
proof (induction lib g f arbitrary: res f' rule: drain.induct)
  case (1 lib g f)
  obtain st g1 f1 where gn: "gen_next lib g f = (st, g1, f1)"
    by (cases "gen_next lib g f") auto
  note c1 = gen_next_closed[OF gn]
  show ?case
  proof (cases st)
    case (Yield r)
    obtain res2 f2 where dr: "drain lib g1 f1 = (res2, f2)" by (cases "drain lib g1 f1") auto
    from "1.IH"[OF gn[symmetric] Yield refl dr] have "s_closed f2 = s_closed f1 \<and> s_name f2 = s_name f1"
      by simp
    moreover from "1.prems" gn Yield dr have "f' = f2"
      by (subst (asm) drain.simps) (auto split: sum.splits)
    ultimately show ?thesis using c1 by simp
  next
    case StopIteration
    with "1.prems" gn c1 show ?thesis by (subst (asm) drain.simps) auto
  next
    case (Raise e)
    with "1.prems" gn c1 show ?thesis by (subst (asm) drain.simps) auto
  qed
qed

lemma open_file_open: "open_file fs p enc = Inr f \<Longrightarrow> \<not> s_closed f \<and> s_name f = StrName p"
  by (auto simp: open_file_def py_open_def split: if_splits sum.splits exn.splits)

text \<open>A small file system for the closed evaluations below.\<close>

definition sample_fs :: filesystem where
  "sample_fs path enc =
     (if path = ''data.txt'' then Inr [''hello'' @ [CHR 0x0A], ''world'' @ [CHR 0x0A]]
      else if path = ''broken.json'' then Inr [''not json'' @ [CHR 0x0A]]
      else if path = ''empty.json'' then Inr []
      else Inl (OSError ''No such file or directory''))"

text \<open>
  C2. When the source is a path, the call opens the file itself, and the file it opened
  is closed when the call returns or raises, whatever the decoder did (a call that ends
  before or in \<open>open\<close> has no file to release and raises). When the source is a stream,
  the stream comes back with its closed flag unchanged.
\<close>

theorem parse_releases_file:
  "(parse lib fs encoding (Path p) fmt csv_delimiter fixed_schema stream = (res, Some f) \<longrightarrow>
      s_closed f \<and> s_name f = StrName p \<and> (\<exists>f0. open_file fs p encoding = Inr f0))
   \<and> (parse lib fs encoding (Path p) fmt csv_delimiter fixed_schema stream = (res, None) \<longrightarrow>
      (\<exists>e. res = Inl e))
   \<and> (parse lib fs encoding (Stream s) fmt csv_delimiter fixed_schema stream = (res, fo) \<longrightarrow>
      (\<exists>f. fo = Some f \<and> s_closed f = s_closed s))"
proof -
  have opened: "s_closed f \<and> s_name f = StrName p \<and> (\<exists>f0. open_file fs p encoding = Inr f0)"
    if a: "parse lib fs encoding (Path p) fmt csv_delimiter fixed_schema stream = (res, Some f)"
  proof -
  from a obtain tag dec f0 where t: "resolve_format (Path p) fmt = Inr tag"
    and d: "map_of parser_map tag = Some dec" and o: "open_file fs p encoding = Inr f0"
    by (auto simp: parse_def source_stream_def split: sum.splits option.splits)
  note oo = open_file_open[OF o]
  show ?thesis
  proof (cases stream)
    case True
    with a t d o oo show ?thesis
      by (auto simp: parse_def finally_close_def close_def)
  next
    case False
    obtain r f1 where dr: "drain lib (Created dec csv_delimiter fixed_schema) f0 = (r, f1)"
      by (cases "drain lib (Created dec csv_delimiter fixed_schema) f0") auto
    from drain_closed[OF dr] oo have "s_name f1 = StrName p" by simp
    with a t d o False dr show ?thesis
      by (auto simp: parse_def finally_close_def close_def split: sum.splits)
  qed
  qed
  have unopened: "\<exists>e. res = Inl e"
    if "parse lib fs encoding (Path p) fmt csv_delimiter fixed_schema stream = (res, None)"
    using that
    by (auto simp: parse_def source_stream_def Let_def
        split: sum.splits option.splits if_splits prod.splits)
  have kept: "\<exists>f. fo = Some f \<and> s_closed f = s_closed s"
    if a: "parse lib fs encoding (Stream s) fmt csv_delimiter fixed_schema stream = (res, fo)"
  proof (cases "resolve_format (Stream s) fmt")
    case (Inl e)
    with a show ?thesis by (auto simp: parse_def source_stream_def)
  next
    case (Inr tag)
    show ?thesis
    proof (cases "map_of parser_map tag")
      case None
      with a Inr show ?thesis by (auto simp: parse_def source_stream_def)
    next
      case (Some dec)
      show ?thesis
      proof (cases stream)
        case True
        with a Inr Some show ?thesis by (auto simp: parse_def finally_close_def)
      next
        case False
        obtain r f1 where dr: "drain lib (Created dec csv_delimiter fixed_schema) s = (r, f1)"
          by (cases "drain lib (Created dec csv_delimiter fixed_schema) s") auto
        from drain_closed[OF dr] have "s_closed f1 = s_closed s" by simp
        with a Inr Some False dr show ?thesis
          by (auto simp: parse_def finally_close_def split: sum.splits)
      qed
    qed
  qed
  from opened unopened kept show ?thesis by blast
qed

theorem parse_releases_file_witness:
  "parse reference_lib sample_fs None (Path ''broken.json'') None None None False =
     (Inl JSONDecodeError,
      Some \<lparr>s_name = StrName ''broken.json'', s_lines = [], s_closed = True\<rparr>)
   \<and> s_closed \<lparr>s_name = StrName ''broken.json'', s_lines = [], s_closed = True\<rparr>
   \<and> (\<exists>f0. open_file sample_fs ''broken.json'' None = Inr f0)
   \<and> parse reference_lib sample_fs None (Path ''missing.csv'') None None None True =
       (Inl (OSError ''No such file or directory''), None)
   \<and> parse reference_lib sample_fs None
         (Stream \<lparr>s_name = NoName, s_lines = [''a'' @ [CHR 0x0A], ''b''], s_closed = False\<rparr>)
         (Some ''text'') None None False =
       (Inr (Eager [[(KStr ''line_no'', VInt 1), (KStr ''text'', VStr ''a'')],
                    [(KStr ''line_no'', VInt 2), (KStr ''text'', VStr ''b'')]]),
        Some \<lparr>s_name = NoName, s_lines = [], s_closed = False\<rparr>)"
proof -
  have broken: "parse reference_lib sample_fs None (Path ''broken.json'') None None None False =
     (Inl JSONDecodeError,
      Some \<lparr>s_name = StrName ''broken.json'', s_lines = [], s_closed = True\<rparr>)"
    by (simp add: parse_def resolver_defs text_defs stream_defs decoder_defs reference_defs
        sample_fs_def drain.simps Let_def)
  have missing: "parse reference_lib sample_fs None (Path ''missing.csv'') None None None True =
       (Inl (OSError ''No such file or directory''), None)"
    by (simp add: parse_def resolver_defs text_defs stream_defs sample_fs_def Let_def)
  have kept: "parse reference_lib sample_fs None
         (Stream \<lparr>s_name = NoName, s_lines = [''a'' @ [CHR 0x0A], ''b''], s_closed = False\<rparr>)
         (Some ''text'') None None False =
       (Inr (Eager [[(KStr ''line_no'', VInt 1), (KStr ''text'', VStr ''a'')],
                    [(KStr ''line_no'', VInt 2), (KStr ''text'', VStr ''b'')]]),
        Some \<lparr>s_name = NoName, s_lines = [], s_closed = False\<rparr>)"
    by (simp add: parse_def resolver_defs text_defs stream_defs decoder_defs drain.simps Let_def)
  from parse_releases_file[of reference_lib sample_fs None "''broken.json''" None None None False
      "Inl JSONDecodeError" "\<lparr>s_name = StrName ''broken.json'', s_lines = [], s_closed = True\<rparr>"]
    broken missing kept
  show ?thesis by simp
qed

section \<open>The decoder registry\<close>

text \<open>
  C9. A tag that is not a key of the registry makes \<open>parse\<close> raise \<open>ValueError\<close> with
  the message \<open>Unsupported format: \<close> followed by the tag (the tag as resolved, that is
  lower-cased). Nothing is decoded: no file is opened, and a stream given as the source
  comes back exactly as it was.
\<close>

theorem unsupported_format:
  assumes "resolve_format path fmt = Inr tag" and "tag \<notin> fst ` set parser_map"
  shows "parse lib fs encoding path fmt csv_delimiter fixed_schema stream =
           (Inl (ValueError (''Unsupported format: '' @ tag)), source_stream path)"
proof -
  from assms(2) have "map_of parser_map tag = None"
    by (simp add: map_of_eq_None_iff)
  with assms(1) show ?thesis by (simp add: parse_def)
qed

theorem unsupported_format_witness:
  "resolve_format (Path ''data.yaml'') (Some ''YAML'') = Inr ''yaml''
   \<and> ''yaml'' \<notin> fst ` set parser_map
   \<and> parse reference_lib sample_fs None (Path ''data.yaml'') (Some ''YAML'') None None True =
       (Inl (ValueError ''Unsupported format: yaml''), None)"
proof -
  have r: "resolve_format (Path ''data.yaml'') (Some ''YAML'') = Inr ''yaml''"
    by (simp add: resolve_format_def text_defs)
  have n: "''yaml'' \<notin> fst ` set parser_map"
    by (simp add: parser_map_def)
  from unsupported_format[OF r n, of reference_lib sample_fs None None None True] r n
  show ?thesis by (simp add: source_stream_def)
qed

section \<open>Lazy output\<close>

text \<open>
  A generator resumed on a closed stream before its first \<open>yield\<close> never produces a
  record: every decoder reads the stream first (or fails on its options).
\<close>

lemma created_on_closed:
  assumes "s_closed f"
  shows "\<exists>e. gen_next lib (Created dec csv_delimiter fixed_schema) f = (Raise e, Finished, f)"
proof (cases dec)
  case ParseCsv with assms show ?thesis by (simp add: parse_csv_start_def)
next
  case ParseTsv with assms show ?thesis by (simp add: parse_csv_start_def)
next
  case ParseJson with assms show ?thesis by (simp add: parse_json_start_def read_all_def)
next
  case ParseNdjson with assms show ?thesis by (simp add: parse_ndjson_loop_def)
next
  case ParseXml with assms show ?thesis by (simp add: parse_xml_start_def read_all_def)
next
  case ParseIni with assms show ?thesis by (simp add: parse_ini_start_def)
next
  case ParseText with assms show ?thesis by (simp add: parse_text_loop_def next_line_def)
next
  case ParseFixedWidth with assms show ?thesis
    by (simp add: parse_fixed_start_def parse_fixed_loop_def next_line_def Let_def)
next
  case ParseUnknown with assms show ?thesis by (simp add: parse_unknown_loop_def next_line_def)
qed

text \<open>
  With a path as the source and \<open>stream=True\<close>, \<open>parse\<close> returns the generator after its
  \<open>finally\<close> clause has closed the file, and nothing of the decoder has run yet. The
  first \<open>next\<close> of the consumer therefore raises, for every format and every file.
\<close>

lemma lazy_parse_of_path_never_yields:
  assumes "parse lib fs encoding (Path p) fmt csv_delimiter fixed_schema True = (Inr (Lazy g), Some f)"
  shows "\<exists>e. gen_next lib g f = (Raise e, Finished, f)"
proof -
  from assms obtain dec f0 where "g = Created dec csv_delimiter fixed_schema" and "f = close f0"
    by (auto simp: parse_def finally_close_def split: sum.splits option.splits)
  then show ?thesis using created_on_closed[of f lib dec csv_delimiter fixed_schema]
    by (simp add: close_def)
qed

text \<open>
  C1 (the code departs from the claim). The file \<open>data.txt\<close> holds the two lines
  \<open>hello\<close> and \<open>world\<close>. \<open>parse("data.txt")\<close> with the default \<open>stream=True\<close> returns a
  generator on a file that is already closed, with both lines unread; the consumer's
  first \<open>next\<close> raises \<open>ValueError\<close> instead of giving the record of line 1. The same
  two lines given as an open stream are decoded one record per request.
\<close>

theorem lazy_parse_of_path_fails:
  "parse reference_lib sample_fs None (Path ''data.txt'') None None None True =
     (Inr (Lazy (Created ParseText None None)),
      Some \<lparr>s_name = StrName ''data.txt'',
            s_lines = [''hello'' @ [CHR 0x0A], ''world'' @ [CHR 0x0A]], s_closed = True\<rparr>)
   \<and> gen_next reference_lib (Created ParseText None None)
         \<lparr>s_name = StrName ''data.txt'',
          s_lines = [''hello'' @ [CHR 0x0A], ''world'' @ [CHR 0x0A]], s_closed = True\<rparr> =
       (Raise (ValueError ''I/O operation on closed file.''), Finished,
        \<lparr>s_name = StrName ''data.txt'',
         s_lines = [''hello'' @ [CHR 0x0A], ''world'' @ [CHR 0x0A]], s_closed = True\<rparr>)
   \<and> gen_next reference_lib (Created ParseText None None)
         \<lparr>s_name = NoName,
          s_lines = [''hello'' @ [CHR 0x0A], ''world'' @ [CHR 0x0A]], s_closed = False\<rparr> =
       (Yield [(KStr ''line_no'', VInt 1), (KStr ''text'', VStr ''hello'')], TextLines 2,
        \<lparr>s_name = NoName, s_lines = [''world'' @ [CHR 0x0A]], s_closed = False\<rparr>)"
  by (simp add: parse_def resolver_defs text_defs stream_defs decoder_defs sample_fs_def Let_def)

section \<open>What a call of \<open>parse\<close> amounts to\<close>

text \<open>
  The stream a call works on and whether the call owns it: a path is opened by the call,
  a stream is taken as it is.
\<close>

definition opened :: "filesystem \<Rightarrow> string option \<Rightarrow> source \<Rightarrow> exn + stream" where
  "opened fs encoding path = (case path of Path p \<Rightarrow> open_file fs p encoding | Stream s \<Rightarrow> Inr s)"

definition owned :: "source \<Rightarrow> bool" where
  "owned path = (case path of Path p \<Rightarrow> True | Stream s \<Rightarrow> False)"

lemma parse_lazy:
  assumes "resolve_format path fmt = Inr tag" and "map_of parser_map tag = Some dec"
    and "opened fs encoding path = Inr f"
  shows "parse lib fs encoding path fmt csv_delimiter fixed_schema True =
           (Inr (Lazy (Created dec csv_delimiter fixed_schema)), Some (finally_close (owned path) f))"
  using assms by (cases path) (auto simp: parse_def opened_def owned_def)

lemma parse_eager:
  assumes "resolve_format path fmt = Inr tag" and "map_of parser_map tag = Some dec"
    and "opened fs encoding path = Inr f"
    and "drain lib (Created dec csv_delimiter fixed_schema) f = (res, f')"
  shows "parse lib fs encoding path fmt csv_delimiter fixed_schema False =
           (map_sum id Eager res, Some (finally_close (owned path) f'))"
  using assms by (cases path; cases res) (auto simp: parse_def opened_def owned_def)

lemma drain_raise:
  "gen_next lib g f = (Raise e, g', f') \<Longrightarrow> drain lib g f = (Inl e, f')"
  by (subst drain.simps) simp

lemma drain_stop:
  "gen_next lib g f = (StopIteration, g', f') \<Longrightarrow> drain lib g f = (Inr [], f')"
  by (subst drain.simps) simp

lemma drain_yield:
  "gen_next lib g f = (Yield r, g', f') \<Longrightarrow> drain lib g' f' = (Inr rs, f'') \<Longrightarrow>
   drain lib g f = (Inr (r # rs), f'')"
  by (subst drain.simps) simp

section \<open>Fixed-width decoding without a schema\<close>

definition schema_required :: exn where
  "schema_required = ValueError ''fixed_schema is required for fixed-width parsing''"

lemma fixed_start_without_schema:
  "fixed_schema = None \<or> fixed_schema = Some [] \<Longrightarrow>
   gen_next lib (Created ParseFixedWidth csv_delimiter fixed_schema) f =
     (Raise schema_required, Finished, f)"
  by (auto simp: parse_fixed_start_def schema_required_def)

text \<open>
  C3 as the claim states it fails for \<open>stream=True\<close>: the decoder is a generator
  function, so calling it checks nothing, and \<open>parse\<close> returns the generator.
\<close>

theorem fixed_without_schema_lazy_call_returns:
  "parse reference_lib sample_fs None
     (Stream \<lparr>s_name = NoName, s_lines = [''Al 5 ''], s_closed = False\<rparr>)
     (Some ''fixed'') None None True =
   (Inr (Lazy (Created ParseFixedWidth None None)),
    Some \<lparr>s_name = NoName, s_lines = [''Al 5 ''], s_closed = False\<rparr>)"
  by (simp add: parse_def resolver_defs text_defs stream_defs)

text \<open>
  C3, amended. With format \<open>fixed\<close>, no schema (absent or empty) and a source that can
  be opened: with \<open>stream=False\<close> the call raises the configuration error and no line has
  been read; with \<open>stream=True\<close> the call returns a generator, and the first request
  for a record raises the configuration error, again with no line read (whatever the
  state of the stream then is).
\<close>

theorem fixed_without_schema:
  assumes "resolve_format path fmt = Inr ''fixed''"
    and "fixed_schema = None \<or> fixed_schema = Some []"
    and "opened fs encoding path = Inr f"
  shows "parse lib fs encoding path fmt csv_delimiter fixed_schema False =
           (Inl schema_required, Some (finally_close (owned path) f))
       \<and> s_lines (finally_close (owned path) f) = s_lines f
       \<and> parse lib fs encoding path fmt csv_delimiter fixed_schema True =
           (Inr (Lazy (Created ParseFixedWidth csv_delimiter fixed_schema)),
            Some (finally_close (owned path) f))
       \<and> gen_next lib (Created ParseFixedWidth csv_delimiter fixed_schema) f' =
           (Raise schema_required, Finished, f')"
proof -
  have reg: "map_of parser_map ''fixed'' = Some ParseFixedWidth"
    by (simp add: parser_map_def)
  note st = fixed_start_without_schema[OF assms(2)]
  have "drain lib (Created ParseFixedWidth csv_delimiter fixed_schema) f = (Inl schema_required, f)"
    by (rule drain_raise[OF st])
  from parse_eager[OF assms(1) reg assms(3) this] parse_lazy[OF assms(1) reg assms(3)] st
  show ?thesis by (simp add: finally_close_def close_def)
qed

theorem fixed_without_schema_witness:
  "resolve_format (Path ''data.txt'') (Some ''FIXED'') = Inr ''fixed''
   \<and> opened sample_fs None (Path ''data.txt'') =
       Inr \<lparr>s_name = StrName ''data.txt'',
            s_lines = [''hello'' @ [CHR 0x0A], ''world'' @ [CHR 0x0A]], s_closed = False\<rparr>
   \<and> parse reference_lib sample_fs None (Path ''data.txt'') (Some ''FIXED'') None (Some []) False =
       (Inl (ValueError ''fixed_schema is required for fixed-width parsing''),
        Some \<lparr>s_name = StrName ''data.txt'',
              s_lines = [''hello'' @ [CHR 0x0A], ''world'' @ [CHR 0x0A]], s_closed = True\<rparr>)
   \<and> parse reference_lib sample_fs None (Path ''data.txt'') (Some ''FIXED'') None (Some []) True =
       (Inr (Lazy (Created ParseFixedWidth None (Some []))),
        Some \<lparr>s_name = StrName ''data.txt'',
              s_lines = [''hello'' @ [CHR 0x0A], ''world'' @ [CHR 0x0A]], s_closed = True\<rparr>)"
proof -
  have r: "resolve_format (Path ''data.txt'') (Some ''FIXED'') = Inr ''fixed''"
    by (simp add: resolve_format_def text_defs)
  have o: "opened sample_fs None (Path ''data.txt'') =
       Inr \<lparr>s_name = StrName ''data.txt'',
            s_lines = [''hello'' @ [CHR 0x0A], ''world'' @ [CHR 0x0A]], s_closed = False\<rparr>"
    by (simp add: opened_def stream_defs sample_fs_def)
  have s: "Some [] = None \<or> Some [] = (Some [] :: (string \<times> int) list option)" by simp
  from fixed_without_schema[OF r s o, of reference_lib None] r o
  show ?thesis by (simp add: schema_required_def owned_def finally_close_def close_def)
qed

section \<open>Line-oriented decoders\<close>

text \<open>The records of the lines \<open>ls\<close>, numbered from \<open>i\<close>.\<close>

fun line_records :: "int \<Rightarrow> string list \<Rightarrow> pydict list" where
  "line_records i [] = []"
| "line_records i (l # ls) = line_record i l # line_records (i + 1) ls"

lemma length_line_records: "length (line_records i ls) = length ls"
  by (induction ls arbitrary: i) auto

lemma nth_line_records:
  "k < length ls \<Longrightarrow> line_records i ls ! k = line_record (i + int k) (ls ! k)"
proof (induction ls arbitrary: i k)
  case Nil
  then show ?case by simp
next
  case (Cons l ls)
  then show ?case by (cases k) (auto simp: algebra_simps)
qed

lemma drain_text_lines:
  "\<not> s_closed f \<Longrightarrow> s_lines f = ls \<Longrightarrow>
   drain lib (TextLines i) f = (Inr (line_records i ls), f\<lparr>s_lines := []\<rparr>)"
proof (induction ls arbitrary: f i)
  case Nil
  then have "gen_next lib (TextLines i) f = (StopIteration, Finished, f)"
    by (simp add: parse_text_loop_def next_line_def)
  from drain_stop[OF this] Nil show ?case by simp
next
  case (Cons l ls)
  then have g: "gen_next lib (TextLines i) f =
      (Yield (line_record i l), TextLines (i + 1), f\<lparr>s_lines := ls\<rparr>)"
    by (simp add: parse_text_loop_def next_line_def)
  have "drain lib (TextLines (i + 1)) (f\<lparr>s_lines := ls\<rparr>) =
      (Inr (line_records (i + 1) ls), f\<lparr>s_lines := ls, s_lines := []\<rparr>)"
    using Cons.IH[of "f\<lparr>s_lines := ls\<rparr>" "i + 1"] Cons.prems by simp
  from drain_yield[OF g this] show ?case by simp
qed

lemma drain_unknown_lines:
  "\<not> s_closed f \<Longrightarrow> s_lines f = ls \<Longrightarrow>
   drain lib (UnknownLines i) f = (Inr (line_records i ls), f\<lparr>s_lines := []\<rparr>)"
proof (induction ls arbitrary: f i)
  case Nil
  then have "gen_next lib (UnknownLines i) f = (StopIteration, Finished, f)"
    by (simp add: parse_unknown_loop_def next_line_def)
  from drain_stop[OF this] Nil show ?case by simp
next
  case (Cons l ls)
  then have g: "gen_next lib (UnknownLines i) f =
      (Yield (line_record i l), UnknownLines (i + 1), f\<lparr>s_lines := ls\<rparr>)"
    by (simp add: parse_unknown_loop_def next_line_def)
  have "drain lib (UnknownLines (i + 1)) (f\<lparr>s_lines := ls\<rparr>) =
      (Inr (line_records (i + 1) ls), f\<lparr>s_lines := ls, s_lines := []\<rparr>)"
    using Cons.IH[of "f\<lparr>s_lines := ls\<rparr>" "i + 1"] Cons.prems by simp
  from drain_yield[OF g this] show ?case by simp
qed

text \<open>The first resumption enters the loop with the counter at 1.\<close>

lemma drain_created_text:
  "drain lib (Created ParseText csv_delimiter fixed_schema) f = drain lib (TextLines 1) f"
  by (subst drain.simps, subst (2) drain.simps) simp

lemma drain_created_unknown:
  "drain lib (Created ParseUnknown csv_delimiter fixed_schema) f = drain lib (UnknownLines 1) f"
  by (subst drain.simps, subst (2) drain.simps) simp

lemma guessed_tag_registered: "map_of parser_map (lower (guess_format p)) \<noteq> None"
proof -
  have "guess_format p \<in>
      set [''csv'', ''tsv'', ''json'', ''ndjson'', ''xml'', ''ini'', ''text'', ''unknown'']"
    by (rule guess_format_range)
  then show ?thesis
    by (auto simp: parser_map_def lower_def lower_char_def)
qed

text \<open>The first \<open>n\<close> requests made to a generator, with what each of them gave.\<close>

fun consume :: "stdlib \<Rightarrow> nat \<Rightarrow> generator \<Rightarrow> stream \<Rightarrow> step list \<times> generator \<times> stream" where
  "consume lib 0 g f = ([], g, f)"
| "consume lib (Suc n) g f =
     (case gen_next lib g f of
        (st, g', f') \<Rightarrow>
          (case consume lib n g' f' of (sts, g'', f'') \<Rightarrow> (st # sts, g'', f'')))"

lemma consume_unknown_lines:
  "\<not> s_closed f \<Longrightarrow> k \<le> length (s_lines f) \<Longrightarrow>
   consume lib k (UnknownLines i) f =
     (map Yield (line_records i (take k (s_lines f))), UnknownLines (i + int k),
      f\<lparr>s_lines := drop k (s_lines f)\<rparr>)"
proof (induction k arbitrary: f i)
  case 0
  show ?case by simp
next
  case (Suc k)
  then obtain l ls where ls: "s_lines f = l # ls" by (cases "s_lines f") auto
  with Suc.prems have g: "gen_next lib (UnknownLines i) f =
      (Yield (line_record i l), UnknownLines (i + 1), f\<lparr>s_lines := ls\<rparr>)"
    by (simp add: parse_unknown_loop_def next_line_def)
  from Suc.IH[of "f\<lparr>s_lines := ls\<rparr>" "i + 1"] Suc.prems ls g show ?case
    by (simp add: algebra_simps)
qed

lemma consume_text_lines:
  "\<not> s_closed f \<Longrightarrow> k \<le> length (s_lines f) \<Longrightarrow>
   consume lib k (TextLines i) f =
     (map Yield (line_records i (take k (s_lines f))), TextLines (i + int k),
      f\<lparr>s_lines := drop k (s_lines f)\<rparr>)"
proof (induction k arbitrary: f i)
  case 0
  show ?case by simp
next
  case (Suc k)
  then obtain l ls where ls: "s_lines f = l # ls" by (cases "s_lines f") auto
  with Suc.prems have g: "gen_next lib (TextLines i) f =
      (Yield (line_record i l), TextLines (i + 1), f\<lparr>s_lines := ls\<rparr>)"
    by (simp add: parse_text_loop_def next_line_def)
  from Suc.IH[of "f\<lparr>s_lines := ls\<rparr>" "i + 1"] Suc.prems ls g show ?case
    by (simp add: algebra_simps)
qed

lemma consume_created_unknown:
  "consume lib (Suc n) (Created ParseUnknown csv_delimiter fixed_schema) f =
   consume lib (Suc n) (UnknownLines 1) f"
  by simp

lemma consume_created_text:
  "consume lib (Suc n) (Created ParseText csv_delimiter fixed_schema) f =
   consume lib (Suc n) (TextLines 1) f"
  by simp

lemma consume_steps_unknown:
  assumes "\<not> s_closed f" and "k \<le> length (s_lines f)"
  shows "fst (consume lib k (Created ParseUnknown csv_delimiter fixed_schema) f) =
           map Yield (line_records 1 (take k (s_lines f)))
       \<and> snd (snd (consume lib k (Created ParseUnknown csv_delimiter fixed_schema) f)) =
           f\<lparr>s_lines := drop k (s_lines f)\<rparr>"
proof (cases k)
  case 0
  then show ?thesis by simp
next
  case (Suc n)
  with consume_unknown_lines[OF assms, of lib 1] show ?thesis
    by (simp only: consume_created_unknown) simp
qed

lemma consume_steps_text:
  assumes "\<not> s_closed f" and "k \<le> length (s_lines f)"
  shows "fst (consume lib k (Created ParseText csv_delimiter fixed_schema) f) =
           map Yield (line_records 1 (take k (s_lines f)))"
proof (cases k)
  case 0
  then show ?thesis by simp
next
  case (Suc n)
  with consume_text_lines[OF assms, of lib 1] show ?thesis
    by (simp only: consume_created_text) simp
qed

lemma consume_unknown_to_end:
  "\<not> s_closed f \<Longrightarrow> s_lines f = ls \<Longrightarrow>
   fst (consume lib (Suc (length ls)) (UnknownLines i) f) =
     map Yield (line_records i ls) @ [StopIteration]"
proof (induction ls arbitrary: f i)
  case Nil
  then show ?case by (simp add: parse_unknown_loop_def next_line_def)
next
  case (Cons l ls)
  then have g: "gen_next lib (UnknownLines i) f =
      (Yield (line_record i l), UnknownLines (i + 1), f\<lparr>s_lines := ls\<rparr>)"
    by (simp add: parse_unknown_loop_def next_line_def)
  from Cons.IH[of "f\<lparr>s_lines := ls\<rparr>" "i + 1"] Cons.prems
  have "fst (consume lib (Suc (length ls)) (UnknownLines (i + 1)) (f\<lparr>s_lines := ls\<rparr>)) =
      map Yield (line_records (i + 1) ls) @ [StopIteration]" by simp
  with g show ?case
    by (simp add: case_prod_beta del: consume.simps(2))
      (simp add: consume.simps(2)[of lib "Suc (length ls)"] case_prod_beta g del: consume.simps(2))
qed

text \<open>A file system with one file, whose name has no extension.\<close>

definition notes_fs :: filesystem where
  "notes_fs path enc =
     (if path = ''notes'' then Inr [''first'' @ [CHR 0x0A], ''second'' @ [CHR 0x0A]]
      else Inl (OSError ''No such file or directory''))"

text \<open>
  C10 as the claim states it fails for a path with the default \<open>stream=True\<close>: the
  format of \<open>notes\<close> resolves to \<open>unknown\<close>, the call returns a generator on the file
  it has already closed, and the first request raises instead of giving the record of
  line 1 (the defect of C1).
\<close>

theorem unknown_lazy_path_yields_nothing:
  "resolve_format (Path ''notes'') None = Inr ''unknown''
   \<and> parse reference_lib notes_fs None (Path ''notes'') None None None True =
       (Inr (Lazy (Created ParseUnknown None None)),
        Some \<lparr>s_name = StrName ''notes'',
              s_lines = [''first'' @ [CHR 0x0A], ''second'' @ [CHR 0x0A]], s_closed = True\<rparr>)
   \<and> gen_next reference_lib (Created ParseUnknown None None)
         \<lparr>s_name = StrName ''notes'',
          s_lines = [''first'' @ [CHR 0x0A], ''second'' @ [CHR 0x0A]], s_closed = True\<rparr> =
       (Raise (ValueError ''I/O operation on closed file.''), Finished,
        \<lparr>s_name = StrName ''notes'',
         s_lines = [''first'' @ [CHR 0x0A], ''second'' @ [CHR 0x0A]], s_closed = True\<rparr>)"
  by (simp add: parse_def resolver_defs text_defs stream_defs decoder_defs notes_fs_def Let_def)

text \<open>
  C10, amended. A source whose format resolves to \<open>unknown\<close> is not refused: the tag is
  a key of the registry and selects \<open>_parse_unknown\<close>. On a source that can be read,
  \<open>parse\<close> with \<open>stream=False\<close> returns one record per line, blank lines included: the
  record at position \<open>k\<close> (from 0) is \<open>{line_no: k + 1, text: line k without its trailing
  line feeds}\<close>, which is what the plain-text decoder returns on the same source. With an
  open stream as the source and \<open>stream=True\<close>, the call returns a generator and leaves
  the stream untouched; the first \<open>k\<close> requests yield the records of the first \<open>k\<close>
  lines, as the plain-text decoder does, and have read exactly these lines; the request
  after the last line ends the iteration. (A path with \<open>stream=True\<close> is left out.)
\<close>

theorem unknown_decodes_lines:
  assumes "resolve_format path None = Inr ''unknown''"
    and "opened fs encoding path = Inr f"
    and "\<not> s_closed f"
  shows "map_of parser_map ''unknown'' = Some ParseUnknown
       \<and> parse lib fs encoding path None csv_delimiter fixed_schema False =
           (Inr (Eager (line_records 1 (s_lines f))),
            Some (finally_close (owned path) (f\<lparr>s_lines := []\<rparr>)))
       \<and> length (line_records 1 (s_lines f)) = length (s_lines f)
       \<and> (\<forall>k < length (s_lines f).
             line_records 1 (s_lines f) ! k =
               [(KStr ''line_no'', VInt (int k + 1)), (KStr ''text'', VStr (rstrip_nl (s_lines f ! k)))])
       \<and> parse lib fs encoding path (Some ''text'') csv_delimiter fixed_schema False =
           parse lib fs encoding path None csv_delimiter fixed_schema False
       \<and> (path = Stream f \<longrightarrow>
            parse lib fs encoding path None csv_delimiter fixed_schema True =
              (Inr (Lazy (Created ParseUnknown csv_delimiter fixed_schema)), Some f)
          \<and> (\<forall>k \<le> length (s_lines f).
                fst (consume lib k (Created ParseUnknown csv_delimiter fixed_schema) f) =
                  map Yield (line_records 1 (take k (s_lines f)))
              \<and> snd (snd (consume lib k (Created ParseUnknown csv_delimiter fixed_schema) f)) =
                  f\<lparr>s_lines := drop k (s_lines f)\<rparr>
              \<and> fst (consume lib k (Created ParseText csv_delimiter fixed_schema) f) =
                  fst (consume lib k (Created ParseUnknown csv_delimiter fixed_schema) f))
          \<and> fst (consume lib (Suc (length (s_lines f)))
                  (Created ParseUnknown csv_delimiter fixed_schema) f) =
              map Yield (line_records 1 (s_lines f)) @ [StopIteration])"
proof -
  have reg: "map_of parser_map ''unknown'' = Some ParseUnknown"
    and regt: "map_of parser_map ''text'' = Some ParseText"
    by (simp_all add: parser_map_def)
  have rt: "resolve_format path (Some ''text'') = Inr ''text''"
    by (simp add: resolve_format_def lower_def lower_char_def)
  have du: "drain lib (Created ParseUnknown csv_delimiter fixed_schema) f =
      (Inr (line_records 1 (s_lines f)), f\<lparr>s_lines := []\<rparr>)"
    using drain_unknown_lines[OF assms(3) refl] by (simp add: drain_created_unknown)
  have dt: "drain lib (Created ParseText csv_delimiter fixed_schema) f =
      (Inr (line_records 1 (s_lines f)), f\<lparr>s_lines := []\<rparr>)"
    using drain_text_lines[OF assms(3) refl] by (simp add: drain_created_text)
  have pu: "parse lib fs encoding path None csv_delimiter fixed_schema False =
           (Inr (Eager (line_records 1 (s_lines f))),
            Some (finally_close (owned path) (f\<lparr>s_lines := []\<rparr>)))"
    using parse_eager[OF assms(1) reg assms(2) du] by simp
  have pt: "parse lib fs encoding path (Some ''text'') csv_delimiter fixed_schema False =
           (Inr (Eager (line_records 1 (s_lines f))),
            Some (finally_close (owned path) (f\<lparr>s_lines := []\<rparr>)))"
    using parse_eager[OF rt regt assms(2) dt] by simp
  have nth: "\<forall>k < length (s_lines f).
             line_records 1 (s_lines f) ! k =
               [(KStr ''line_no'', VInt (int k + 1)), (KStr ''text'', VStr (rstrip_nl (s_lines f ! k)))]"
    by (simp add: nth_line_records line_record_def add.commute)
  have lz: "parse lib fs encoding path None csv_delimiter fixed_schema True =
              (Inr (Lazy (Created ParseUnknown csv_delimiter fixed_schema)), Some f)"
    if "path = Stream f"
    using parse_lazy[OF assms(1) reg assms(2)] that by (simp add: owned_def finally_close_def)
  have steps: "\<forall>k \<le> length (s_lines f).
                fst (consume lib k (Created ParseUnknown csv_delimiter fixed_schema) f) =
                  map Yield (line_records 1 (take k (s_lines f)))
              \<and> snd (snd (consume lib k (Created ParseUnknown csv_delimiter fixed_schema) f)) =
                  f\<lparr>s_lines := drop k (s_lines f)\<rparr>
              \<and> fst (consume lib k (Created ParseText csv_delimiter fixed_schema) f) =
                  fst (consume lib k (Created ParseUnknown csv_delimiter fixed_schema) f)"
    using consume_steps_unknown[OF assms(3)] consume_steps_text[OF assms(3)] by simp
  have last: "fst (consume lib (Suc (length (s_lines f)))
                  (Created ParseUnknown csv_delimiter fixed_schema) f) =
              map Yield (line_records 1 (s_lines f)) @ [StopIteration]"
    using consume_unknown_to_end[OF assms(3) refl, of lib 1]
    by (simp only: consume_created_unknown)
  from reg pu pt nth lz steps last show ?thesis
    by (simp add: length_line_records)
qed

theorem unknown_decodes_lines_witness:
  "resolve_format (Stream \<lparr>s_name = NoName, s_lines = [''a'' @ [CHR 0x0A], [CHR 0x0A], ''b''],
                          s_closed = False\<rparr>) None = Inr ''unknown''
   \<and> parse reference_lib sample_fs None
        (Stream \<lparr>s_name = NoName, s_lines = [''a'' @ [CHR 0x0A], [CHR 0x0A], ''b''],
                 s_closed = False\<rparr>) None None None False =
       (Inr (Eager [[(KStr ''line_no'', VInt 1), (KStr ''text'', VStr ''a'')],
                    [(KStr ''line_no'', VInt 2), (KStr ''text'', VStr '''')],
                    [(KStr ''line_no'', VInt 3), (KStr ''text'', VStr ''b'')]]),
        Some \<lparr>s_name = NoName, s_lines = [], s_closed = False\<rparr>)
   \<and> consume reference_lib 2 (Created ParseUnknown None None)
        \<lparr>s_name = NoName, s_lines = [''a'' @ [CHR 0x0A], [CHR 0x0A], ''b''], s_closed = False\<rparr> =
       ([Yield [(KStr ''line_no'', VInt 1), (KStr ''text'', VStr ''a'')],
         Yield [(KStr ''line_no'', VInt 2), (KStr ''text'', VStr '''')]],
        UnknownLines 3,
        \<lparr>s_name = NoName, s_lines = [''b''], s_closed = False\<rparr>)"
proof -
  let ?f = "\<lparr>s_name = NoName, s_lines = [''a'' @ [CHR 0x0A], [CHR 0x0A], ''b''], s_closed = False\<rparr>"
  have r: "resolve_format (Stream ?f) None = Inr ''unknown''"
    by (simp add: resolver_defs text_defs)
  have o: "opened sample_fs None (Stream ?f) = Inr ?f"
    by (simp add: opened_def)
  have c: "\<not> s_closed ?f" by simp
  have two: "consume reference_lib 2 (Created ParseUnknown None None) ?f =
       ([Yield [(KStr ''line_no'', VInt 1), (KStr ''text'', VStr ''a'')],
         Yield [(KStr ''line_no'', VInt 2), (KStr ''text'', VStr '''')]],
        UnknownLines 3,
        \<lparr>s_name = NoName, s_lines = [''b''], s_closed = False\<rparr>)"
    by (simp add: eval_nat_numeral decoder_defs stream_defs text_defs)
  from unknown_decodes_lines[OF r o c, of reference_lib None None, THEN conjunct2, THEN conjunct1] r two
  show ?thesis
    by (simp add: owned_def finally_close_def line_record_def text_defs)
qed

section \<open>Dicts as association lists\<close>

lemma map_of_dict_set: "map_of (dict_set k v d) = (map_of d)(k \<mapsto> v)"
  by (induction d) (auto simp: fun_eq_iff)

lemma dict_keys_dict_set: "dict_keys (dict_set k v d) = insert k (dict_keys d)"
proof (induction d)
  case Nil
  show ?case by (simp add: dict_keys_def)
next
  case (Cons x d)
  obtain a b where x: "x = (a, b)" by (cases x)
  from Cons show ?case unfolding dict_keys_def x by (cases "k = a") auto
qed

lemma map_fst_dict_set:
  "map fst (dict_set k v d) = (if k \<in> dict_keys d then map fst d else map fst d @ [k])"
proof (induction d)
  case Nil
  show ?case by (simp add: dict_keys_def)
next
  case (Cons x d)
  obtain a b where x: "x = (a, b)" by (cases x)
  from Cons show ?case unfolding dict_keys_def x by (cases "k = a") auto
qed

section \<open>Fixed-width records\<close>

lemma pyslice_nonneg:
  "0 \<le> a \<Longrightarrow> a \<le> b \<Longrightarrow> pyslice xs a b = take (nat (b - a)) (drop (nat a) xs)"
  by (auto simp: pyslice_def Let_def min_def)

lemma slice_fields_other:
  "k \<notin> KStr ` fst ` set schema \<Longrightarrow> map_of (slice_fields raw pos schema rec) k = map_of rec k"
  by (induction schema arbitrary: pos rec) (auto simp: map_of_dict_set)

lemma slice_fields_keys:
  "dict_keys (slice_fields raw pos schema rec) = dict_keys rec \<union> KStr ` fst ` set schema"
proof (induction schema arbitrary: pos rec)
  case Nil
  show ?case by simp
next
  case (Cons x schema)
  obtain a b where x: "x = (a, b)" by (cases x)
  show ?case unfolding x by (simp add: Cons dict_keys_dict_set)
qed

lemma slice_fields_nth:
  "distinct (map fst schema) \<Longrightarrow> i < length schema \<Longrightarrow>
   map_of (slice_fields raw pos schema rec) (KStr (fst (schema ! i))) =
     Some (VStr (strip (pyslice raw (pos + sum_list (take i (map snd schema)))
                                    (pos + sum_list (take (Suc i) (map snd schema))))))"
proof (induction schema arbitrary: pos rec i)
  case Nil
  then show ?case by simp
next
  case (Cons nw schema)
  obtain name width where nw: "nw = (name, width)" by (cases nw)
  show ?case
  proof (cases i)
    case 0
    from Cons.prems nw have "KStr name \<notin> KStr ` fst ` set schema" by auto
    from slice_fields_other[OF this] 0 nw show ?thesis by (simp add: map_of_dict_set)
  next
    case (Suc j)
    with Cons.prems have "distinct (map fst schema)" "j < length schema" by auto
    from Cons.IH[OF this] Suc nw show ?thesis by (simp add: add.assoc)
  qed
qed

lemma sum_list_take_le:
  "\<forall>w \<in> set ws. (0::int) \<le> w \<Longrightarrow> 0 \<le> sum_list (take i ws) \<and> sum_list (take i ws) \<le> sum_list ws"
proof (induction ws arbitrary: i)
  case Nil
  then show ?case by simp
next
  case (Cons w ws)
  then show ?case by (cases i) (auto simp: sum_list_nonneg add_increasing2 add_mono)
qed

text \<open>The records of the lines \<open>ls\<close> of a fixed-width source, numbered from \<open>n\<close>.\<close>

fun fixed_records :: "string list \<Rightarrow> int list \<Rightarrow> int \<Rightarrow> int \<Rightarrow> string list \<Rightarrow> pydict list" where
  "fixed_records names widths tw n [] = []"
| "fixed_records names widths tw n (l # ls) =
     fixed_record names widths tw n l # fixed_records names widths tw (n + 1) ls"

lemma length_fixed_records: "length (fixed_records names widths tw n ls) = length ls"
  by (induction ls arbitrary: n) auto

lemma nth_fixed_records:
  "k < length ls \<Longrightarrow>
   fixed_records names widths tw n ls ! k = fixed_record names widths tw (n + int k) (ls ! k)"
proof (induction ls arbitrary: n k)
  case Nil
  then show ?case by simp
next
  case (Cons l ls)
  then show ?case by (cases k) (auto simp: algebra_simps)
qed

lemma drain_fixed_lines:
  "\<not> s_closed f \<Longrightarrow> s_lines f = ls \<Longrightarrow>
   drain lib (FixedLines names widths tw n) f =
     (Inr (fixed_records names widths tw n ls), f\<lparr>s_lines := []\<rparr>)"
proof (induction ls arbitrary: f n)
  case Nil
  then have "gen_next lib (FixedLines names widths tw n) f = (StopIteration, Finished, f)"
    by (simp add: parse_fixed_loop_def next_line_def)
  from drain_stop[OF this] Nil show ?case by simp
next
  case (Cons l ls)
  then have g: "gen_next lib (FixedLines names widths tw n) f =
      (Yield (fixed_record names widths tw n l), FixedLines names widths tw (n + 1),
       f\<lparr>s_lines := ls\<rparr>)"
    by (simp add: parse_fixed_loop_def next_line_def)
  have "drain lib (FixedLines names widths tw (n + 1)) (f\<lparr>s_lines := ls\<rparr>) =
      (Inr (fixed_records names widths tw (n + 1) ls), f\<lparr>s_lines := ls, s_lines := []\<rparr>)"
    using Cons.IH[of "f\<lparr>s_lines := ls\<rparr>" "n + 1"] Cons.prems by simp
  from drain_yield[OF g this] show ?case by simp
qed

lemma drain_created_fixed:
  assumes "schema \<noteq> []"
  shows "drain lib (Created ParseFixedWidth csv_delimiter (Some schema)) f =
         drain lib (FixedLines (map fst schema) (map snd schema) (sum_list (map snd schema)) 1) f"
  using assms
  by (subst drain.simps, subst (2) drain.simps) (simp add: parse_fixed_start_def Let_def)

lemma drain_fixed:
  assumes "schema \<noteq> []" and "\<not> s_closed f"
  shows "drain lib (Created ParseFixedWidth csv_delimiter (Some schema)) f =
         (Inr (fixed_records (map fst schema) (map snd schema) (sum_list (map snd schema)) 1
                 (s_lines f)),
          f\<lparr>s_lines := []\<rparr>)"
  using drain_fixed_lines[OF assms(2) refl] by (simp add: drain_created_fixed[OF assms(1)])

text \<open>The field values and the keys of one fixed-width record.\<close>

lemma fixed_record_field:
  assumes "distinct (map fst schema)" and "''_line_no'' \<notin> fst ` set schema"
    and "\<forall>w \<in> set (map snd schema). 0 \<le> w" and "i < length schema"
  shows "map_of (fixed_record (map fst schema) (map snd schema) (sum_list (map snd schema)) n line)
           (KStr (fst (schema ! i))) =
         Some (VStr (strip (take (nat (snd (schema ! i)))
                 (drop (nat (sum_list (take i (map snd schema))))
                    (ljust (rstrip_nl line) (sum_list (map snd schema)))))))"
proof -
  let ?ws = "map snd schema"
  have z: "zip (map fst schema) ?ws = schema" by (simp add: zip_map_fst_snd)
  have ne: "KStr (fst (schema ! i)) \<noteq> KStr ''_line_no''"
    using assms(2,4) by (metis nth_mem pykey.inject image_eqI)
  have lo: "0 \<le> sum_list (take i ?ws)" using sum_list_take_le[OF assms(3)] by simp
  have tk: "take (Suc i) ?ws = take i ?ws @ [snd (schema ! i)]"
    using assms(4) by (simp add: take_Suc_conv_app_nth)
  have w: "0 \<le> snd (schema ! i)" using assms(3,4) by simp
  have "pyslice raw (0 + sum_list (take i ?ws)) (0 + sum_list (take (Suc i) ?ws)) =
        take (nat (snd (schema ! i))) (drop (nat (sum_list (take i ?ws))) raw)" for raw :: string
    using lo w by (simp add: tk pyslice_nonneg)
  with slice_fields_nth[OF assms(1,4), of _ 0 "[]"] ne show ?thesis
    by (simp add: fixed_record_def Let_def z map_of_dict_set)
qed

lemma fixed_record_line_no:
  "map_of (fixed_record names widths tw n line) (KStr ''_line_no'') = Some (VInt n)"
  by (simp add: fixed_record_def Let_def map_of_dict_set)

lemma fixed_record_keys:
  "dict_keys (fixed_record (map fst schema) (map snd schema) tw n line) =
     insert (KStr ''_line_no'') (KStr ` fst ` set schema)"
  by (simp add: fixed_record_def Let_def zip_map_fst_snd dict_keys_dict_set slice_fields_keys)
    (simp add: dict_keys_def)

lemma length_ljust: "int (length (ljust s w)) = max (int (length s)) w"
  by (simp add: ljust_def)
text \<open>
  C6 as the claim states it fails on its own example: characters 0 to 3 of \<open>Al 5 \<close>
  padded to six characters are \<open>Al 5\<close>, and characters 4 to 5 are two spaces.
\<close>

theorem fixed_width_example_differs:
  "parse reference_lib sample_fs None
     (Stream \<lparr>s_name = NoName, s_lines = [''Al 5 ''], s_closed = False\<rparr>)
     (Some ''fixed'') None (Some [(''name'', 4), (''age'', 2)]) False =
   (Inr (Eager [[(KStr ''name'', VStr ''Al 5''), (KStr ''age'', VStr ''''),
                 (KStr ''_line_no'', VInt 1)]]),
    Some \<lparr>s_name = NoName, s_lines = [], s_closed = False\<rparr>)
   \<and> fst (parse reference_lib sample_fs None
     (Stream \<lparr>s_name = NoName, s_lines = [''Al 5 ''], s_closed = False\<rparr>)
     (Some ''fixed'') None (Some [(''name'', 4), (''age'', 2)]) False) \<noteq>
     Inr (Eager [[(KStr ''name'', VStr ''Al''), (KStr ''age'', VStr ''5''),
                  (KStr ''_line_no'', VInt 1)]])"
  by (simp add: parse_def resolver_defs text_defs stream_defs decoder_defs drain.simps Let_def)

text \<open>
  C6, amended. With a non-empty schema of distinct field names other than \<open>_line_no\<close>
  and widths that are not negative, on a source that can be read, \<open>parse\<close> with
  \<open>stream=False\<close> never raises and returns one record per line. Each line, without its
  trailing line feeds, is padded with spaces on the right to the total width; the value
  of field \<open>i\<close> is the trimmed slice of its width at the offset given by the widths
  before it; \<open>_line_no\<close> is the 1-based line number; a record has no other key. The
  schema \<open>[("name", 4), ("age", 2)]\<close> and the line \<open>Al 5 \<close> give
  \<open>{name: "Al 5", age: "", _line_no: 1}\<close>.
\<close>

theorem fixed_width_records:
  assumes "resolve_format path fmt = Inr ''fixed''"
    and "schema \<noteq> []" and "distinct (map fst schema)" and "''_line_no'' \<notin> fst ` set schema"
    and "\<forall>w \<in> set (map snd schema). 0 \<le> w"
    and "opened fs encoding path = Inr f" and "\<not> s_closed f"
    and "recs = fixed_records (map fst schema) (map snd schema) (sum_list (map snd schema)) 1 (s_lines f)"
  shows "parse lib fs encoding path fmt csv_delimiter (Some schema) False =
           (Inr (Eager recs), Some (finally_close (owned path) (f\<lparr>s_lines := []\<rparr>)))
       \<and> length recs = length (s_lines f)
       \<and> (\<forall>k < length (s_lines f). \<forall>i < length schema.
             map_of (recs ! k) (KStr (fst (schema ! i))) =
               Some (VStr (strip (take (nat (snd (schema ! i)))
                 (drop (nat (sum_list (take i (map snd schema))))
                    (ljust (rstrip_nl (s_lines f ! k)) (sum_list (map snd schema))))))))
       \<and> (\<forall>k < length (s_lines f). map_of (recs ! k) (KStr ''_line_no'') = Some (VInt (int k + 1)))
       \<and> (\<forall>k < length (s_lines f).
             dict_keys (recs ! k) = insert (KStr ''_line_no'') (KStr ` fst ` set schema))
       \<and> (\<forall>line. sum_list (map snd schema)
             \<le> int (length (ljust (rstrip_nl line) (sum_list (map snd schema)))))
       \<and> fixed_record [''name'', ''age''] [4, 2] 6 1 ''Al 5 '' =
           [(KStr ''name'', VStr ''Al 5''), (KStr ''age'', VStr ''''), (KStr ''_line_no'', VInt 1)]"
proof -
  have reg: "map_of parser_map ''fixed'' = Some ParseFixedWidth"
    by (simp add: parser_map_def)
  have p: "parse lib fs encoding path fmt csv_delimiter (Some schema) False =
           (Inr (Eager recs), Some (finally_close (owned path) (f\<lparr>s_lines := []\<rparr>)))"
    using parse_eager[OF assms(1) reg assms(6) drain_fixed[OF assms(2,7)]] assms(8) by simp
  have len: "length recs = length (s_lines f)"
    by (simp add: assms(8) length_fixed_records)
  have fld: "\<forall>k < length (s_lines f). \<forall>i < length schema.
             map_of (recs ! k) (KStr (fst (schema ! i))) =
               Some (VStr (strip (take (nat (snd (schema ! i)))
                 (drop (nat (sum_list (take i (map snd schema))))
                    (ljust (rstrip_nl (s_lines f ! k)) (sum_list (map snd schema)))))))"
    using fixed_record_field[OF assms(3,4,5)] by (simp add: assms(8) nth_fixed_records)
  have no: "\<forall>k < length (s_lines f). map_of (recs ! k) (KStr ''_line_no'') = Some (VInt (int k + 1))"
    by (simp add: assms(8) nth_fixed_records fixed_record_line_no add.commute)
  have keys: "\<forall>k < length (s_lines f).
             dict_keys (recs ! k) = insert (KStr ''_line_no'') (KStr ` fst ` set schema)"
    by (simp add: assms(8) nth_fixed_records fixed_record_keys)
  have pad: "\<forall>line. sum_list (map snd schema)
             \<le> int (length (ljust (rstrip_nl line) (sum_list (map snd schema))))"
    by (simp add: length_ljust)
  have ex: "fixed_record [''name'', ''age''] [4, 2] 6 1 ''Al 5 '' =
           [(KStr ''name'', VStr ''Al 5''), (KStr ''age'', VStr ''''), (KStr ''_line_no'', VInt 1)]"
    by (simp add: fixed_record_def text_defs Let_def)
  from p len fld no keys pad ex show ?thesis by blast
qed

theorem fixed_width_records_witness:
  "parse reference_lib sample_fs None
     (Stream \<lparr>s_name = NoName, s_lines = [''Al  5'' @ [CHR 0x0A], ''Bo''], s_closed = False\<rparr>)
     (Some ''fixed'') None (Some [(''name'', 4), (''age'', 2)]) False =
   (Inr (Eager [[(KStr ''name'', VStr ''Al''), (KStr ''age'', VStr ''5''), (KStr ''_line_no'', VInt 1)],
                [(KStr ''name'', VStr ''Bo''), (KStr ''age'', VStr ''''), (KStr ''_line_no'', VInt 2)]]),
    Some \<lparr>s_name = NoName, s_lines = [], s_closed = False\<rparr>)"
proof -
  let ?f = "\<lparr>s_name = NoName, s_lines = [''Al  5'' @ [CHR 0x0A], ''Bo''], s_closed = False\<rparr>"
  let ?schema = "[(''name'', 4 :: int), (''age'', 2)]"
  have r: "resolve_format (Stream ?f) (Some ''fixed'') = Inr ''fixed''"
    by (simp add: resolve_format_def text_defs)
  have "?schema \<noteq> []" "distinct (map fst ?schema)" "''_line_no'' \<notin> fst ` set ?schema"
    "\<forall>w \<in> set (map snd ?schema). 0 \<le> w" "opened sample_fs None (Stream ?f) = Inr ?f"
    "\<not> s_closed ?f"
    by (simp_all add: opened_def)
  from fixed_width_records[OF r this refl, of reference_lib None, THEN conjunct1]
  show ?thesis
    by (simp add: owned_def finally_close_def fixed_record_def text_defs Let_def eval_nat_numeral)
qed

section \<open>Delimited rows\<close>












section \<open>The rows of a delimited input\<close>






section \<open>The scanner on lines without quotes\<close>













section \<open>The dict of a row, for any header\<close>








section \<open>What the delimited-text decoders return\<close>




section \<open>Field names within one run\<close>











section \<open>Empty input\<close>

lemma empty_stream_unchanged: "s_lines f = [] \<Longrightarrow> f\<lparr>s_lines := []\<rparr> = f"
  by (cases f) simp

text \<open>
  On an open stream without lines, the first resumption of the line-oriented and
  delimited decoders ends the iteration; the whole-document decoders hand the empty text
  to their library parser.
\<close>

lemma empty_input_stops:
  assumes "\<not> s_closed f" and "s_lines f = []"
    and "dec \<in> set [ParseTsv, ParseNdjson, ParseText, ParseUnknown]
         \<or> dec = ParseCsv \<and> (csv_delimiter = None \<or> (\<exists>c. csv_delimiter = Some [c]))
         \<or> dec = ParseFixedWidth \<and> fixed_schema \<noteq> None \<and> fixed_schema \<noteq> Some []
         \<or> dec = ParseIni \<and> cfg_read_file lib [] = Inr []"
  shows "gen_next lib (Created dec csv_delimiter fixed_schema) f = (StopIteration, Finished, f)"
  using assms empty_stream_unchanged[OF assms(2)]
  by (cases dec)
    (auto simp: parse_csv_start_def parse_reset_def parse_ndjson_loop_def parse_text_loop_def
      parse_unknown_loop_def parse_fixed_start_def parse_fixed_loop_def parse_ini_start_def
      parse_ini_loop_def next_line_def Let_def)

lemma empty_input_json:
  assumes "\<not> s_closed f" and "s_lines f = []" and "json_loads lib [] = Inl e"
  shows "gen_next lib (Created ParseJson csv_delimiter fixed_schema) f = (Raise e, Finished, f)"
  using assms empty_stream_unchanged[OF assms(2)]
  by (simp add: parse_json_start_def read_all_def)

lemma empty_input_xml:
  assumes "\<not> s_closed f" and "s_lines f = []" and "et_parse lib [] = Inl e"
  shows "gen_next lib (Created ParseXml csv_delimiter fixed_schema) f = (Raise e, Finished, f)"
  using assms empty_stream_unchanged[OF assms(2)]
  by (simp add: parse_xml_start_def read_all_def)

lemma reference_lib_on_empty:
  "json_loads reference_lib [] = Inl JSONDecodeError"
  "et_parse reference_lib [] = Inl ParseError"
  "cfg_read_file reference_lib [] = Inr []"
  by (simp_all add: reference_lib_def json_loads_ref_def tokenize_def et_parse_ref_def
      cfg_read_file_ref_def)

text \<open>
  C4 as the claim states it fails for \<open>json\<close> and \<open>xml\<close>: the empty text is not a
  document, the library parser raises, and so does \<open>parse\<close>.
\<close>

theorem empty_document_raises:
  "parse reference_lib sample_fs None (Path ''empty.json'') None None None False =
     (Inl JSONDecodeError,
      Some \<lparr>s_name = StrName ''empty.json'', s_lines = [], s_closed = True\<rparr>)
   \<and> parse reference_lib sample_fs None
       (Stream \<lparr>s_name = NoName, s_lines = [], s_closed = False\<rparr>) (Some ''xml'') None None False =
     (Inl ParseError, Some \<lparr>s_name = NoName, s_lines = [], s_closed = False\<rparr>)"
  by (simp add: parse_def resolver_defs text_defs stream_defs decoder_defs sample_fs_def
      reference_lib_def json_loads_ref_def tokenize_def et_parse_ref_def drain.simps Let_def)

text \<open>
  C4, amended. On a source that can be read and has no content, \<open>parse\<close> with
  \<open>stream=False\<close> returns the empty list, without raising, for \<open>csv\<close> (with no
  delimiter override or a one-character one), \<open>tsv\<close>, \<open>ndjson\<close> (and \<open>jsonl\<close>),
  \<open>text\<close> (and \<open>log\<close>), \<open>unknown\<close>, and \<open>fixed\<close> with a non-empty schema; for \<open>ini\<close>
  as well, the configuration parser finding no section in an empty input. For \<open>json\<close>
  and \<open>xml\<close> the library parser is handed the empty text, and the error it raises is
  raised by \<open>parse\<close>. On the empty text the parsers raise \<open>JSONDecodeError\<close> and
  \<open>ParseError\<close>, and the configuration parser finds no section.
\<close>

theorem parse_empty_input:
  assumes "resolve_format path fmt = Inr tag"
    and "opened fs encoding path = Inr f" and "\<not> s_closed f" and "s_lines f = []"
  shows "(tag \<in> set [''tsv'', ''ndjson'', ''jsonl'', ''text'', ''log'', ''unknown'']
          \<or> tag = ''csv'' \<and> (csv_delimiter = None \<or> (\<exists>c. csv_delimiter = Some [c]))
          \<or> tag = ''fixed'' \<and> fixed_schema \<noteq> None \<and> fixed_schema \<noteq> Some []
          \<or> tag = ''ini'' \<and> cfg_read_file lib [] = Inr []
          \<longrightarrow> parse lib fs encoding path fmt csv_delimiter fixed_schema False =
                (Inr (Eager []), Some (finally_close (owned path) f)))
       \<and> (tag = ''json'' \<longrightarrow> (\<forall>e. json_loads lib [] = Inl e \<longrightarrow>
             parse lib fs encoding path fmt csv_delimiter fixed_schema False =
               (Inl e, Some (finally_close (owned path) f))))
       \<and> (tag = ''xml'' \<longrightarrow> (\<forall>e. et_parse lib [] = Inl e \<longrightarrow>
             parse lib fs encoding path fmt csv_delimiter fixed_schema False =
               (Inl e, Some (finally_close (owned path) f))))
       \<and> json_loads reference_lib [] = Inl JSONDecodeError
       \<and> et_parse reference_lib [] = Inl ParseError
       \<and> cfg_read_file reference_lib [] = Inr []"
proof -
  have empty: "parse lib fs encoding path fmt csv_delimiter fixed_schema False =
                (Inr (Eager []), Some (finally_close (owned path) f))"
    if t: "tag \<in> set [''tsv'', ''ndjson'', ''jsonl'', ''text'', ''log'', ''unknown'']
          \<or> tag = ''csv'' \<and> (csv_delimiter = None \<or> (\<exists>c. csv_delimiter = Some [c]))
          \<or> tag = ''fixed'' \<and> fixed_schema \<noteq> None \<and> fixed_schema \<noteq> Some []
          \<or> tag = ''ini'' \<and> cfg_read_file lib [] = Inr []"
  proof -
    from t obtain dec where reg: "map_of parser_map tag = Some dec"
      and d: "dec \<in> set [ParseTsv, ParseNdjson, ParseText, ParseUnknown]
         \<or> dec = ParseCsv \<and> (csv_delimiter = None \<or> (\<exists>c. csv_delimiter = Some [c]))
         \<or> dec = ParseFixedWidth \<and> fixed_schema \<noteq> None \<and> fixed_schema \<noteq> Some []
         \<or> dec = ParseIni \<and> cfg_read_file lib [] = Inr []"
    proof -
      have "\<exists>dec. map_of parser_map tag = Some dec
         \<and> (dec \<in> set [ParseTsv, ParseNdjson, ParseText, ParseUnknown]
         \<or> dec = ParseCsv \<and> (csv_delimiter = None \<or> (\<exists>c. csv_delimiter = Some [c]))
         \<or> dec = ParseFixedWidth \<and> fixed_schema \<noteq> None \<and> fixed_schema \<noteq> Some []
         \<or> dec = ParseIni \<and> cfg_read_file lib [] = Inr [])"
        using t by (elim disjE conjE) (simp_all add: parser_map_def, auto)
      then show ?thesis using that by blast
    qed
    from drain_stop[OF empty_input_stops[OF assms(3,4) d]]
    have "drain lib (Created dec csv_delimiter fixed_schema) f = (Inr [], f)" .
    from parse_eager[OF assms(1) reg assms(2) this] show ?thesis by simp
  qed
  have json: "parse lib fs encoding path fmt csv_delimiter fixed_schema False =
               (Inl e, Some (finally_close (owned path) f))"
    if "tag = ''json''" "json_loads lib [] = Inl e" for e
  proof -
    from that(1) have reg: "map_of parser_map tag = Some ParseJson" by (simp add: parser_map_def)
    from drain_raise[OF empty_input_json[OF assms(3,4) that(2)]]
    have "drain lib (Created ParseJson csv_delimiter fixed_schema) f = (Inl e, f)" .
    from parse_eager[OF assms(1) reg assms(2) this] show ?thesis by simp
  qed
  have xml: "parse lib fs encoding path fmt csv_delimiter fixed_schema False =
               (Inl e, Some (finally_close (owned path) f))"
    if "tag = ''xml''" "et_parse lib [] = Inl e" for e
  proof -
    from that(1) have reg: "map_of parser_map tag = Some ParseXml" by (simp add: parser_map_def)
    from drain_raise[OF empty_input_xml[OF assms(3,4) that(2)]]
    have "drain lib (Created ParseXml csv_delimiter fixed_schema) f = (Inl e, f)" .
    from parse_eager[OF assms(1) reg assms(2) this] show ?thesis by simp
  qed
  from empty json xml reference_lib_on_empty show ?thesis by blast
qed

theorem parse_empty_input_witness:
  "resolve_format (Path ''empty.json'') (Some ''ndjson'') = Inr ''ndjson''
   \<and> opened sample_fs None (Path ''empty.json'') =
       Inr \<lparr>s_name = StrName ''empty.json'', s_lines = [], s_closed = False\<rparr>
   \<and> parse reference_lib sample_fs None (Path ''empty.json'') (Some ''ndjson'') None None False =
       (Inr (Eager []), Some \<lparr>s_name = StrName ''empty.json'', s_lines = [], s_closed = True\<rparr>)
   \<and> parse reference_lib sample_fs None (Path ''empty.json'') (Some ''ini'') None None False =
       (Inr (Eager []), Some \<lparr>s_name = StrName ''empty.json'', s_lines = [], s_closed = True\<rparr>)
   \<and> parse reference_lib sample_fs None (Path ''empty.json'') (Some ''xml'') None None False =
       (Inl ParseError, Some \<lparr>s_name = StrName ''empty.json'', s_lines = [], s_closed = True\<rparr>)"
proof -
  let ?f = "\<lparr>s_name = StrName ''empty.json'', s_lines = [], s_closed = False\<rparr>"
  have r: "resolve_format (Path ''empty.json'') (Some ''ndjson'') = Inr ''ndjson''"
    and ri: "resolve_format (Path ''empty.json'') (Some ''ini'') = Inr ''ini''"
    and rx: "resolve_format (Path ''empty.json'') (Some ''xml'') = Inr ''xml''"
    by (simp_all add: resolve_format_def text_defs)
  have o: "opened sample_fs None (Path ''empty.json'') = Inr ?f"
    by (simp add: opened_def stream_defs sample_fs_def)
  have c: "\<not> s_closed ?f" and e: "s_lines ?f = []" by simp_all
  from parse_empty_input[OF r o c e, of None None reference_lib]
    parse_empty_input[OF ri o c e, of None None reference_lib]
    parse_empty_input[OF rx o c e, of None None reference_lib] r o
  show ?thesis by (simp add: owned_def finally_close_def close_def)
qed

end
